theory Spec2Isabelle
  imports Complex_Main "HOL-Library.Char_ord" "HOL-Library.List_Lexorder" "HOL-Library.Product_Lexorder"
begin

section \<open>Python strings\<close>

text \<open>
  Texts are modelled as \<^typ>\<open>string\<close>, read as ASCII. The Python string methods the
  scripts use are given at their ASCII behaviour.
\<close>

definition NL :: char where
  "NL = CHR 0x0A"

text \<open>\<^verbatim>\<open>str.lower()\<close>\<close>

definition lower_char :: "char \<Rightarrow> char" where
  "lower_char c = (let n = (of_char c :: nat) in if 65 \<le> n \<and> n \<le> 90 then char_of (n + 32) else c)"

definition lower :: "string \<Rightarrow> string" where
  "lower s = map lower_char s"

text \<open>\<^verbatim>\<open>s.startswith(p)\<close>\<close>

definition startswith :: "string \<Rightarrow> string \<Rightarrow> bool" where
  "startswith s p = (take (length p) s = p)"

text \<open>\<^verbatim>\<open>p in s\<close> on strings: \<open>p\<close> occurs in \<open>s\<close> as a substring.\<close>

fun py_in :: "string \<Rightarrow> string \<Rightarrow> bool" where
  "py_in p [] = (p = [])"
| "py_in p (c # cs) = (startswith (c # cs) p \<or> py_in p cs)"

text \<open>\<^verbatim>\<open>any(kw in s for kw in kws)\<close>\<close>

definition any_in :: "string list \<Rightarrow> string \<Rightarrow> bool" where
  "any_in kws s = list_ex (\<lambda>kw. py_in kw s) kws"

section \<open>Key-method selection\<close>

text \<open>
  \<^verbatim>\<open>get_key_interaction_methods\<close> (update_all_nodes.py and update_node_titles.py hold
  the same text). The loop appends each method to one of three lists; the state of
  the loop is the triple of lists.
\<close>

definition gkim_step :: "string list \<times> string list \<times> string list \<Rightarrow> string \<Rightarrow> string list \<times> string list \<times> string list" where
  "gkim_step acc method =
     (case acc of (priority_methods, medium_priority, other_methods) \<Rightarrow>
      let method_lower = lower method in
      if any_in [''connect'', ''disconnect'', ''register'', ''execute'', ''route'', ''subscribe'', ''unsubscribe''] method_lower
      then (priority_methods @ [method], medium_priority, other_methods)
      else if startswith method ''get'' \<and>
              any_in [''module'', ''manager'', ''router'', ''registry'', ''factory'', ''connection'', ''state''] method_lower
      then (priority_methods, medium_priority @ [method], other_methods)
      else if any_in [''notify'', ''on'', ''set''] method_lower
      then (priority_methods, medium_priority @ [method], other_methods)
      else if any_in [''load'', ''save'', ''serialize'', ''deserialize''] method_lower
      then (priority_methods, medium_priority @ [method], other_methods)
      else (priority_methods, medium_priority, other_methods @ [method]))"

definition get_key_interaction_methods :: "string \<Rightarrow> string list \<Rightarrow> string list" where
  "get_key_interaction_methods class_name all_methods =
     (if all_methods = [] then []
      else
        case foldl gkim_step ([], [], []) all_methods of
          (priority_methods, medium_priority, other_methods) \<Rightarrow>
        let result = take 6 priority_methods;
            result = (if length result < 8 then result @ take (8 - length result) medium_priority else result);
            result = (if length result < 8 then result @ take (8 - length result) other_methods else result);
            result = (if result = [] \<and> all_methods \<noteq> [] then take 8 all_methods else result)
        in take 8 result)"

section \<open>Fallback descriptions\<close>

text \<open>The table of \<^verbatim>\<open>get_fallback_description\<close> in update_all_nodes.py.\<close>

definition fallbacks_all :: "(string \<times> string) list" where
  "fallbacks_all = [
    (''EngineState'', ''Immutable snapshot of engine state for rendering''),
    (''Engine'', ''Central headless core managing modules and execution''),
    (''ConnectionManager'', ''Unified connection management for audio/video/parameters''),
    (''ModuleRegistry'', ''Centralized storage and lookup for module instances''),
    (''ModuleFactory'', ''Factory for creating module instances''),
    (''ParameterRouter'', ''Routes parameter changes between modules''),
    (''SessionManager'', ''Manages saving and loading application sessions''),
    (''ProjectManager'', ''Manages project files and assets''),
    (''PatternRuntime'', ''Runtime system for pattern evaluation''),
    (''ScriptManager'', ''Generates and manages Lua scripts from state''),
    (''Clock'', ''Central timing system for audio/video synchronization''),
    (''CommandExecutor'', ''Executes commands with undo/redo support''),
    (''AudioRouter'', ''Routes audio signals between modules''),
    (''VideoRouter'', ''Routes video signals between modules''),
    (''EventRouter'', ''Manages event subscriptions between modules''),
    (''AssetLibrary'', ''Manages media assets and references''),
    (''MediaConverter'', ''Converts between media formats''),
    (''InputRouter'', ''Routes input events to modules''),
    (''ExpressionParser'', ''Parses mathematical expressions''),
    (''Oscilloscope'', ''Audio visualization module displaying waveform oscilloscope''),
    (''Spectrogram'', ''Audio visualization module displaying frequency spectrum''),
    (''MediaPlayer'', ''Module for playing audio and video media files''),
    (''VoiceProcessor'', ''Processes individual voice instances in MultiSampler''),
    (''AudioOutput'', ''Master audio output module routing to system audio''),
    (''AudioMixer'', ''Mixes multiple audio signals into a single output''),
    (''TrackerSequencer'', ''Pattern-based step sequencer for triggering modules''),
    (''Sequencer'', ''Base class for sequencer modules''),
    (''MultiSampler'', ''Multi-voice sampler instrument with polyphonic playback''),
    (''VideoOutput'', ''Master video output module routing to display''),
    (''VideoMixer'', ''Mixes multiple video signals into a single output''),
    (''MenuBar'', ''Top menu bar with file operations and view controls''),
    (''ClockGUI'', ''GUI panel for Clock timing controls''),
    (''Console'', ''Command-line console interface for executing commands''),
    (''ViewManager'', ''Manages visibility and layout of GUI panels''),
    (''TrackerSequencerGUI'', ''GUI panel for TrackerSequencer module''),
    (''CommandBar'', ''Command palette interface for quick command access''),
    (''MultiSamplerGUI'', ''GUI panel for MultiSampler module''),
    (''ofApp'', ''Main application class inheriting from ofBaseApp''),
    (''Pattern'', ''Data structure representing a sequence pattern''),
    (''PatternChain'', ''Chain of patterns with repeat counts and enabled states''),
    (''VoiceManager'', ''Manages voice pool allocation and polyphony for MultiSampler''),
    (''ParameterDescriptor'', ''Metadata descriptor for module parameters''),
    (''Envelope'', ''ADSR envelope generator for audio synthesis''),
    (''TriggerEvent'', ''Event data for discrete step triggers with parameters''),
    (''Port'', ''Describes an input or output port on a module for routing''),
    (''SampleRef'', ''Contains shared audio data and video path for efficient memory usage''),
    (''Voice'', ''Represents an active playback instance in MultiSampler''),
    (''ofBaseApp'', ''Base class from openFrameworks framework (external dependency)''),
    (''Module'', ''Unified base class for all modules (sequencers, instruments, effects, utilities)''),
    (''Shell'', ''Base class for different UI interaction modes''),
    (''EditorShell'', ''Wraps existing ImGui-based editor interface with tiled windows''),
    (''CommandShell'', ''Custom-rendered terminal interface with REPL (Hydra/Strudel style)''),
    (''CodeShell'', ''Live-coding shell with code editor and REPL (Strudel/Tidal/Hydra style)''),
    (''CLIShell'', ''Batch CLI mode for non-interactive command execution'')]"

text \<open>The table of \<^verbatim>\<open>get_fallback_description\<close> in update_node_titles.py.\<close>

definition fallbacks_titles :: "(string \<times> string) list" where
  "fallbacks_titles = [
    (''EngineState'', ''Immutable snapshot of engine state for rendering''),
    (''Engine'', ''Central headless core managing modules and execution''),
    (''ConnectionManager'', ''Unified connection management for audio/video/parameters''),
    (''ModuleRegistry'', ''Centralized storage and lookup for module instances''),
    (''ModuleFactory'', ''Factory for creating module instances''),
    (''ParameterRouter'', ''Routes parameter changes between modules''),
    (''SessionManager'', ''Manages saving and loading application sessions''),
    (''ProjectManager'', ''Manages project files and assets''),
    (''PatternRuntime'', ''Runtime system for pattern evaluation''),
    (''ScriptManager'', ''Generates and manages Lua scripts from state''),
    (''Clock'', ''Central timing system for audio/video synchronization''),
    (''CommandExecutor'', ''Executes commands with undo/redo support''),
    (''AudioRouter'', ''Routes audio signals between modules''),
    (''VideoRouter'', ''Routes video signals between modules''),
    (''EventRouter'', ''Manages event subscriptions between modules''),
    (''AssetLibrary'', ''Manages media assets and references''),
    (''MediaConverter'', ''Converts between media formats''),
    (''InputRouter'', ''Routes input events to modules''),
    (''ExpressionParser'', ''Parses mathematical expressions''),
    (''TriggerEvent'', ''Event data for discrete step triggers with parameters''),
    (''Port'', ''Describes an input or output port on a module for routing''),
    (''SampleRef'', ''Contains shared audio data and video path for efficient memory usage''),
    (''Voice'', ''Represents an active playback instance in MultiSampler''),
    (''ofBaseApp'', ''Base class from openFrameworks framework (external dependency)'')]"

text \<open>\<^verbatim>\<open>d.get(k, "")\<close> on a dictionary of strings.\<close>

definition dict_get_str :: "(string \<times> string) list \<Rightarrow> string \<Rightarrow> string" where
  "dict_get_str d k = (case map_of d k of None \<Rightarrow> [] | Some v \<Rightarrow> v)"

text \<open>\<^verbatim>\<open>get_fallback_description\<close>, update_all_nodes.py.\<close>

definition get_fallback_description :: "string \<Rightarrow> string" where
  "get_fallback_description class_name = dict_get_str fallbacks_all class_name"

text \<open>\<^verbatim>\<open>get_fallback_description\<close>, update_node_titles.py.\<close>

definition get_fallback_description_titles :: "string \<Rightarrow> string" where
  "get_fallback_description_titles class_name = dict_get_str fallbacks_titles class_name"

section \<open>Static layout (generate_uml_canvas.py)\<close>

text \<open>
  \<^verbatim>\<open>UML_LAYERS\<close>, a dictionary in source order, and the \<^verbatim>\<open>UMLClass\<close> objects.
  \<^verbatim>\<open>layout_classes\<close> reads only \<^verbatim>\<open>classes.values()\<close> and mutates the objects in
  place: the model takes the list of these objects in dictionary order and returns the
  list of the same objects after the run, an object being identified by its index. The
  per-layer lists of \<^verbatim>\<open>by_layer\<close> hold references to the objects, that is, indices.
\<close>

record layer_info =
  li_classes :: "string list"
  li_x :: int
  li_y :: int
  li_color :: string
  li_label :: string

definition UML_LAYERS :: "(string \<times> layer_info) list" where
  "UML_LAYERS = [
    (''application'', \<lparr>li_classes = [''ofApp'', ''ofBaseApp''],
       li_x = 0, li_y = 0, li_color = ''#95A5A6'', li_label = ''Application Layer''\<rparr>),
    (''core_systems'', \<lparr>li_classes = [''Clock'', ''ModuleFactory'', ''ModuleRegistry'', ''ConnectionManager'',
         ''ParameterRouter'', ''SessionManager'', ''ProjectManager'',
         ''AudioRouter'', ''VideoRouter'', ''EventRouter'', ''CommandExecutor'',
         ''Engine'', ''EngineState'', ''PatternRuntime'', ''ScriptManager''],
       li_x = 800, li_y = 0, li_color = ''#4A90E2'', li_label = ''Core Systems''\<rparr>),
    (''module_base'', \<lparr>li_classes = [''Module''],
       li_x = 1600, li_y = 0, li_color = ''#50C878'', li_label = ''Module Base''\<rparr>),
    (''modules'', \<lparr>li_classes = [''TrackerSequencer'', ''MultiSampler'', ''MediaPlayer'', ''VoiceProcessor'',
         ''AudioMixer'', ''VideoMixer'', ''AudioOutput'', ''VideoOutput'',
         ''Oscilloscope'', ''Spectrogram''],
       li_x = 2400, li_y = 0, li_color = ''#50C878'', li_label = ''Modules''\<rparr>),
    (''gui_base'', \<lparr>li_classes = [''ModuleGUI''],
       li_x = 3200, li_y = 0, li_color = ''#FF6B6B'', li_label = ''GUI Base''\<rparr>),
    (''gui_classes'', \<lparr>li_classes = [''GUIManager'', ''ViewManager'', ''TrackerSequencerGUI'', ''MultiSamplerGUI'',
         ''AudioMixerGUI'', ''VideoMixerGUI'', ''AudioOutputGUI'', ''VideoOutputGUI'',
         ''OscilloscopeGUI'', ''SpectrogramGUI'', ''ClockGUI'', ''MenuBar'',
         ''Console'', ''CommandBar'', ''FileBrowser'', ''AssetLibraryGUI'', ''AddMenu''],
       li_x = 4000, li_y = 0, li_color = ''#FF6B6B'', li_label = ''GUI Classes''\<rparr>),
    (''cell_system'', \<lparr>li_classes = [''BaseCell'', ''NumCell'', ''BoolCell'', ''MenuCell'', ''ParameterCell'', ''CellGrid''],
       li_x = 4800, li_y = 0, li_color = ''#FFA500'', li_label = ''Cell System''\<rparr>),
    (''data_structures'', \<lparr>li_classes = [''Pattern'', ''PatternChain'', ''SampleRef'', ''Voice'', ''ParameterDescriptor'',
         ''Port'', ''TriggerEvent'', ''Envelope'', ''VoiceManager''],
       li_x = 5600, li_y = 0, li_color = ''#7B68EE'', li_label = ''Data Structures''\<rparr>),
    (''utilities'', \<lparr>li_classes = [''AssetLibrary'', ''MediaConverter'', ''InputRouter'', ''ExpressionParser''],
       li_x = 6400, li_y = 0, li_color = ''#9B59B6'', li_label = ''Utilities''\<rparr>)]"

definition NODE_SPACING_Y :: int where
  "NODE_SPACING_Y = 150"

definition LAYER_HEADER_HEIGHT :: int where
  "LAYER_HEADER_HEIGHT = 120"

record UMLClass =
  uml_name :: string
  uml_node_id :: string
  uml_layer :: string
  uml_is_abstract :: bool
  uml_x :: int
  uml_y :: int
  uml_parent_class :: "string option"
  uml_children :: "string list"

fun by_layer_append :: "(string \<times> nat list) list \<Rightarrow> string \<Rightarrow> nat \<Rightarrow> (string \<times> nat list) list" where
  "by_layer_append [] k v = [(k, [v])]"
| "by_layer_append ((k', vs) # d) k v =
     (if k' = k then (k', vs @ [v]) # d else (k', vs) # by_layer_append d k v)"

definition group_by_layer :: "UMLClass list \<Rightarrow> (string \<times> nat list) list" where
  "group_by_layer objs =
     foldl (\<lambda>by_layer i. by_layer_append by_layer (uml_layer (objs ! i)) i) [] [0..<length objs]"

text \<open>\<^verbatim>\<open>UML_LAYERS.get(layer_name, {}).get("x", 0)\<close> and the same for \<^verbatim>\<open>"y"\<close>.\<close>

definition layer_get_x :: "string \<Rightarrow> int" where
  "layer_get_x layer_name = (case map_of UML_LAYERS layer_name of None \<Rightarrow> 0 | Some layer_info \<Rightarrow> li_x layer_info)"

definition layer_get_y :: "string \<Rightarrow> int" where
  "layer_get_y layer_name = (case map_of UML_LAYERS layer_name of None \<Rightarrow> 0 | Some layer_info \<Rightarrow> li_y layer_info)"

definition layer_sort_key :: "UMLClass \<Rightarrow> bool \<times> string" where
  "layer_sort_key c = (\<not> uml_is_abstract c, uml_name c)"

definition place_class :: "int \<Rightarrow> int \<Rightarrow> UMLClass list \<Rightarrow> nat \<times> nat \<Rightarrow> UMLClass list" where
  "place_class x_base y_base objs e =
     (case e of (i, cls) \<Rightarrow> objs[cls := (objs ! cls)\<lparr>uml_x := x_base, uml_y := y_base + int i * NODE_SPACING_Y\<rparr>])"

definition place_layer :: "UMLClass list \<Rightarrow> string \<times> nat list \<Rightarrow> UMLClass list" where
  "place_layer objs e =
     (case e of (layer_name, layer_classes) \<Rightarrow>
        let x_base = layer_get_x layer_name;
            y_base = layer_get_y layer_name + LAYER_HEADER_HEIGHT;
            layer_classes = sort_key (\<lambda>cls. layer_sort_key (objs ! cls)) layer_classes
        in foldl (place_class x_base y_base) objs (enumerate 0 layer_classes))"

definition layout_classes :: "UMLClass list \<Rightarrow> UMLClass list" where
  "layout_classes objs = foldl place_layer objs (group_by_layer objs)"

text \<open>Two object lists agree on the fields \<^verbatim>\<open>layout_classes\<close> never writes.\<close>

definition same_keys :: "UMLClass list \<Rightarrow> UMLClass list \<Rightarrow> bool" where
  "same_keys a b \<longleftrightarrow> length a = length b \<and>
     (\<forall>k < length a. uml_layer (a ! k) = uml_layer (b ! k) \<and> uml_name (a ! k) = uml_name (b ! k)
        \<and> uml_is_abstract (a ! k) = uml_is_abstract (b ! k))"

section \<open>Regular expressions\<close>

text \<open>
  The scripts use Python's \<^verbatim>\<open>re\<close> module, a backtracking matcher. A pattern is a
  term of type \<open>re\<close>; \<open>re_run r st\<close> lists the states in which a match of \<open>r\<close>
  started in state \<open>st\<close> can end, in the order in which the backtracking matcher
  tries them (greedy quantifiers try one more iteration first, lazy ones try to stop
  first, alternatives are tried from left to right). The first state of the list is the
  match Python reports. A state holds the character before the current position (for
  \<^verbatim>\<open>\b\<close>), the rest of the input and the groups captured so far.
  \<^verbatim>\<open>\w\<close> and \<^verbatim>\<open>\s\<close> are given on ASCII characters. An iteration of a
  quantifier that consumes nothing ends the repetition.
\<close>

datatype cc = CChar char | CWord | CSpace | CDot | CAny | CIn "cc list" | CNotIn "cc list"

definition is_word_char :: "char \<Rightarrow> bool" where
  "is_word_char c = (let n = (of_char c :: nat) in
     (48 \<le> n \<and> n \<le> 57) \<or> (65 \<le> n \<and> n \<le> 90) \<or> (97 \<le> n \<and> n \<le> 122) \<or> n = 95)"

definition is_space_char :: "char \<Rightarrow> bool" where
  "is_space_char c = (let n = (of_char c :: nat) in (9 \<le> n \<and> n \<le> 13) \<or> (28 \<le> n \<and> n \<le> 32))"

fun cc_match :: "cc \<Rightarrow> char \<Rightarrow> bool" where
  "cc_match (CChar a) c = (c = a)"
| "cc_match CWord c = is_word_char c"
| "cc_match CSpace c = is_space_char c"
| "cc_match CDot c = (c \<noteq> CHR 0x0A)"
| "cc_match CAny c = True"
| "cc_match (CIn cs) c = list_ex (\<lambda>k. cc_match k c) cs"
| "cc_match (CNotIn cs) c = (\<not> list_ex (\<lambda>k. cc_match k c) cs)"

text \<open>\<open>CDot\<close> is \<^verbatim>\<open>.\<close>, \<open>CAny\<close> is \<^verbatim>\<open>.\<close> under \<^verbatim>\<open>re.DOTALL\<close>, \<open>Eol\<close> is \<^verbatim>\<open>$\<close> under \<^verbatim>\<open>re.MULTILINE\<close>, \<open>WordB\<close> is \<^verbatim>\<open>\b\<close>.\<close>

datatype re = Atom cc | Eps | Seq re re | Alt re re | Opt re | Star re | Plus re | LazyStar re
  | Group nat re | WordB | Eol

record mstate =
  st_prev :: "char option"
  st_rest :: string
  st_groups :: "(nat \<times> string) list"

definition is_word_opt :: "char option \<Rightarrow> bool" where
  "is_word_opt p = (case p of None \<Rightarrow> False | Some c \<Rightarrow> is_word_char c)"

definition next_char :: "string \<Rightarrow> char option" where
  "next_char s = (case s of [] \<Rightarrow> None | c # _ \<Rightarrow> Some c)"

definition shorter :: "mstate \<Rightarrow> mstate \<Rightarrow> bool" where
  "shorter a b = (length (st_rest a) < length (st_rest b))"

function (sequential) re_run :: "re \<Rightarrow> mstate \<Rightarrow> mstate list" where
  "re_run (Atom k) st = (case st_rest st of [] \<Rightarrow> []
      | c # cs \<Rightarrow> if cc_match k c then [st\<lparr>st_prev := Some c, st_rest := cs\<rparr>] else [])"
| "re_run Eps st = [st]"
| "re_run (Seq a b) st = concat (map (re_run b) (re_run a st))"
| "re_run (Alt a b) st = re_run a st @ re_run b st"
| "re_run (Opt a) st = re_run a st @ [st]"
| "re_run (Star a) st = concat (map (\<lambda>st'. if shorter st' st then re_run (Star a) st' else []) (re_run a st)) @ [st]"
| "re_run (Plus a) st = concat (map (\<lambda>st'. if shorter st' st then re_run (Star a) st' else [st']) (re_run a st))"
| "re_run (LazyStar a) st = st # concat (map (\<lambda>st'. if shorter st' st then re_run (LazyStar a) st' else []) (re_run a st))"
| "re_run (Group n a) st =
     map (\<lambda>st'. st'\<lparr>st_groups := (n, take (length (st_rest st) - length (st_rest st')) (st_rest st)) # st_groups st'\<rparr>) (re_run a st)"
| "re_run WordB st = (if is_word_opt (st_prev st) \<noteq> is_word_opt (next_char (st_rest st)) then [st] else [])"
| "re_run Eol st = (if next_char (st_rest st) = None \<or> next_char (st_rest st) = Some (CHR 0x0A) then [st] else [])"
  by pat_completeness auto
termination
  by (relation "inv_image (less_than <*lex*> less_than) (\<lambda>(r, st). (size r, length (st_rest st)))")
    (auto simp: shorter_def)

fun re_str :: "string \<Rightarrow> re" where
  "re_str [] = Eps"
| "re_str (c # cs) = Seq (Atom (CChar c)) (re_str cs)"

definition seqs :: "re list \<Rightarrow> re" where
  "seqs rs = foldr Seq rs Eps"

definition ch :: "char \<Rightarrow> re" where
  "ch c = Atom (CChar c)"

record match =
  m_start :: nat
  m_end :: nat
  m_groups :: "(nat \<times> string) list"

definition m_group :: "match \<Rightarrow> nat \<Rightarrow> string" where
  "m_group m n = (case map_of (m_groups m) n of None \<Rightarrow> [] | Some g \<Rightarrow> g)"

text \<open>\<^verbatim>\<open>re.search\<close>: the first match at the leftmost position that has one.\<close>

definition match_at :: "re \<Rightarrow> char option \<Rightarrow> string \<Rightarrow> nat \<Rightarrow> match option" where
  "match_at r prev s pos =
     (case re_run r \<lparr>st_prev = prev, st_rest = s, st_groups = []\<rparr> of
        [] \<Rightarrow> None
      | st # _ \<Rightarrow> Some \<lparr>m_start = pos, m_end = pos + (length s - length (st_rest st)), m_groups = st_groups st\<rparr>)"

fun search_from :: "re \<Rightarrow> char option \<Rightarrow> string \<Rightarrow> nat \<Rightarrow> match option" where
  "search_from r prev [] pos = match_at r prev [] pos"
| "search_from r prev (c # cs) pos =
     (case match_at r prev (c # cs) pos of
        Some m \<Rightarrow> Some m
      | None \<Rightarrow> search_from r (Some c) cs (Suc pos))"

definition re_search :: "re \<Rightarrow> string \<Rightarrow> match option" where
  "re_search r s = search_from r None s 0"

text \<open>
  \<^verbatim>\<open>re.finditer\<close>: successive matches that do not overlap; \<open>skip\<close> counts the
  characters still inside the previous match.
\<close>

fun finditer_from :: "re \<Rightarrow> char option \<Rightarrow> string \<Rightarrow> nat \<Rightarrow> nat \<Rightarrow> match list" where
  "finditer_from r prev [] pos skip =
     (if skip > 0 then [] else case match_at r prev [] pos of None \<Rightarrow> [] | Some m \<Rightarrow> [m])"
| "finditer_from r prev (c # cs) pos skip =
     (if skip > 0 then finditer_from r (Some c) cs (Suc pos) (skip - 1)
      else case match_at r prev (c # cs) pos of
             None \<Rightarrow> finditer_from r (Some c) cs (Suc pos) 0
           | Some m \<Rightarrow> m # finditer_from r (Some c) cs (Suc pos) (m_end m - pos - 1))"

definition re_finditer :: "re \<Rightarrow> string \<Rightarrow> match list" where
  "re_finditer r s = finditer_from r None s 0 0"

text \<open>\<^verbatim>\<open>re.sub\<close> with a constant replacement: the text between the matches is kept.\<close>

fun sub_build :: "string \<Rightarrow> string \<Rightarrow> nat \<Rightarrow> match list \<Rightarrow> string" where
  "sub_build repl s pos [] = drop pos s"
| "sub_build repl s pos (m # rest) =
     take (m_start m - pos) (drop pos s) @ repl @ sub_build repl s (m_end m) rest"

definition re_sub :: "re \<Rightarrow> string \<Rightarrow> string \<Rightarrow> string" where
  "re_sub r repl s = sub_build repl s 0 (re_finditer r s)"

section \<open>More Python strings\<close>

text \<open>\<^verbatim>\<open>s.strip()\<close>, \<^verbatim>\<open>s.split('\n')\<close>, \<^verbatim>\<open>'\n'.join(lines)\<close>, \<^verbatim>\<open>s.replace(old, new)\<close> (the scripts only replace non-empty constants) and \<^verbatim>\<open>s.count(c)\<close>.\<close>

definition strip :: "string \<Rightarrow> string" where
  "strip s = rev (dropWhile is_space_char (rev (dropWhile is_space_char s)))"

fun split_nl :: "string \<Rightarrow> string list" where
  "split_nl [] = [[]]"
| "split_nl (c # cs) =
     (if c = CHR 0x0A then [] # split_nl cs
      else case split_nl cs of [] \<Rightarrow> [[c]] | l # ls \<Rightarrow> (c # l) # ls)"

fun join_nl :: "string list \<Rightarrow> string" where
  "join_nl [] = []"
| "join_nl [l] = l"
| "join_nl (l # ls) = l @ [CHR 0x0A] @ join_nl ls"

function replace :: "string \<Rightarrow> string \<Rightarrow> string \<Rightarrow> string" where
  "replace s old new =
     (if s = [] \<or> old = [] then s
      else if startswith s old then new @ replace (drop (length old) s) old new
      else hd s # replace (tl s) old new)"
  by pat_completeness auto
termination
  by (relation "measure (\<lambda>(s, old, new). length s)") auto

declare replace.simps [simp del]

definition count_char :: "char \<Rightarrow> string \<Rightarrow> nat" where
  "count_char c s = length (filter (\<lambda>x. x = c) s)"

section \<open>Header scanning (add_shell_nodes.py)\<close>

text \<open>The patterns \<^verbatim>\<open>//.*?$\<close> (MULTILINE) and \<^verbatim>\<open>/\*.*?\*/\<close> (DOTALL).\<close>

definition P_line_comment :: re where
  "P_line_comment = seqs [re_str ''//'', LazyStar (Atom CDot), Eol]"

definition P_block_comment :: re where
  "P_block_comment = seqs [re_str ''/*'', LazyStar (Atom CAny), re_str ''*/'']"

text \<open>
  The file system: a path is missing, or it exists and \<^verbatim>\<open>read_text\<close> raises (a
  directory, no permission, bytes that are not UTF-8), or it exists and has a text.
\<close>

datatype file_state = Missing | Unreadable | Content string

type_synonym fs = "string \<Rightarrow> file_state"

definition path_exists :: "fs \<Rightarrow> string \<Rightarrow> bool" where
  "path_exists files p = (files p \<noteq> Missing)"

definition path_join :: "string \<Rightarrow> string \<Rightarrow> string" where
  "path_join a b = (if b = [] then a else if hd b = CHR ''/'' then b else a @ ''/'' @ b)"

definition SRC_DIR :: string where
  "SRC_DIR = ''/Users/jaufre/works/of_v0.12.1_osx_release/apps/myApps/videoTracker/src''"

text \<open>
  The canvas document as \<^verbatim>\<open>json.load\<close> returns it: a field is \<open>None\<close> when the key
  is absent; \<open>n_other\<close> and \<open>c_other\<close> hold any further keys, which no script reads.
\<close>

record node =
  n_id :: "string option"
  n_type :: "string option"
  n_text :: "string option"
  n_styleAttributes :: bool
  n_x :: "real option"
  n_y :: "real option"
  n_width :: "real option"
  n_height :: "real option"
  n_color :: "string option"
  n_other :: "(string \<times> string) list"

record edge =
  e_id :: "string option"
  e_fromNode :: "string option"
  e_fromSide :: "string option"
  e_toNode :: "string option"
  e_toSide :: "string option"
  e_color :: "string option"

record metadata =
  md_version :: string
  md_frontmatter :: "(string \<times> string) list"

record canvas =
  c_nodes :: "node list option"
  c_edges :: "edge list option"
  c_metadata :: "metadata option"
  c_other :: "(string \<times> string) list"

datatype error = KeyError

definition get_nodes :: "canvas \<Rightarrow> node list" where
  "get_nodes canvas_data = (case c_nodes canvas_data of None \<Rightarrow> [] | Some nodes \<Rightarrow> nodes)"

definition get_text :: "node \<Rightarrow> string" where
  "get_text n = (case n_text n of None \<Rightarrow> [] | Some t \<Rightarrow> t)"

definition is_text_node :: "node \<Rightarrow> bool" where
  "is_text_node n = (n_type n = Some ''text'')"

record class_info =
  ci_description :: string
  ci_is_abstract :: bool
  ci_file :: string
  ci_methods :: "string list"

definition SHELL_CLASSES :: "(string \<times> class_info) list" where
  "SHELL_CLASSES = [
    (''Shell'', \<lparr>ci_description = ''Base class for different UI interaction modes'',
       ci_is_abstract = True, ci_file = ''shell/Shell.h'',
       ci_methods = [''setup'', ''update'', ''draw'', ''exit'', ''handleKeyPress'', ''handleMousePress'',
         ''handleMouseDrag'', ''handleMouseRelease'', ''handleWindowResize'',
         ''setActive'', ''isActive'', ''getName'', ''getDescription'']\<rparr>),
    (''EditorShell'', \<lparr>ci_description = ''Wraps existing ImGui-based editor interface with tiled windows'',
       ci_is_abstract = False, ci_file = ''shell/EditorShell.h'',
       ci_methods = [''setup'', ''update'', ''draw'', ''exit'', ''handleKeyPress'', ''handleMousePress'',
         ''handleWindowResize'', ''setDrawGUICallback'', ''setHandleKeyPressCallback'']\<rparr>),
    (''CommandShell'', \<lparr>ci_description = ''Custom-rendered terminal interface with REPL (Hydra/Strudel style)'',
       ci_is_abstract = False, ci_file = ''shell/CommandShell.h'',
       ci_methods = [''setup'', ''update'', ''draw'', ''exit'', ''handleKeyPress'', ''handleMousePress'',
         ''handleMouseDrag'', ''handleMouseRelease'', ''handleWindowResize'',
         ''setEmbeddedMode'', ''isEmbeddedMode'', ''setEmbeddedBounds'', ''appendOutput'']\<rparr>),
    (''CodeShell'', \<lparr>ci_description = ''Live-coding shell with code editor and REPL (Strudel/Tidal/Hydra style)'',
       ci_is_abstract = False, ci_file = ''shell/CodeShell.h'',
       ci_methods = [''setup'', ''update'', ''draw'', ''exit'', ''handleKeyPress'', ''handleMousePress'',
         ''handleMouseDrag'', ''handleMouseRelease'', ''handleWindowResize'',
         ''refreshScriptFromState'', ''executeSelection'', ''executeAll'']\<rparr>),
    (''CLIShell'', \<lparr>ci_description = ''Batch CLI mode for non-interactive command execution'',
       ci_is_abstract = False, ci_file = ''shell/CLIShell.h'',
       ci_methods = [''setup'', ''update'', ''draw'', ''exit'', ''handleKeyPress'', ''executeCommand'',
         ''executeFromStdin'', ''executeFromFile'', ''shouldExit'']\<rparr>)]"

definition ABSTRACT_WIDTH :: real where
  "ABSTRACT_WIDTH = 320"

definition ABSTRACT_HEIGHT :: real where
  "ABSTRACT_HEIGHT = 140"

definition REGULAR_WIDTH :: real where
  "REGULAR_WIDTH = 280"

definition REGULAR_HEIGHT :: real where
  "REGULAR_HEIGHT = 100"

definition SHELL_NODE_SPACING_Y :: real where
  "SHELL_NODE_SPACING_Y = 150"

text \<open>
  The patterns of the scanner: \<^verbatim>\<open>\bclass\s+\w+\<close>, \<^verbatim>\<open>\bpublic\s*:\<close>,
  \<^verbatim>\<open>\b(private|protected)\s*:\<close> and
  \<^verbatim>\<open>\b(\w+)\s*\([^)]*\)\s*(?:const\s*)?(?:override\s*)?(?:=\s*0\s*)?[;{]\<close>.
\<close>

definition sp :: re where
  "sp = Atom CSpace"

definition wd :: re where
  "wd = Atom CWord"

definition P_class :: re where
  "P_class = seqs [WordB, re_str ''class'', Plus sp, Plus wd]"

definition P_public :: re where
  "P_public = seqs [WordB, re_str ''public'', Star sp, ch CHR '':'']"

definition P_private_protected :: re where
  "P_private_protected = seqs [WordB, Group 1 (Alt (re_str ''private'') (re_str ''protected'')), Star sp, ch CHR '':'']"

definition P_method :: re where
  "P_method = seqs [WordB, Group 1 (Plus wd), Star sp, ch CHR ''('', Star (Atom (CNotIn [CChar CHR '')''])), ch CHR '')'',
     Star sp, Opt (seqs [re_str ''const'', Star sp]), Opt (seqs [re_str ''override'', Star sp]),
     Opt (seqs [ch CHR ''='', Star sp, ch CHR ''0'', Star sp]), Atom (CIn [CChar CHR '';'', CChar CHR ''{''])]"

definition is_class_start :: "string \<Rightarrow> bool" where
  "is_class_start line = (re_search P_class line \<noteq> None \<and> CHR ''{'' \<in> set line)"

definition brace_delta :: "string \<Rightarrow> int" where
  "brace_delta line = int (count_char CHR ''{'' line) - int (count_char CHR ''}'' line)"

definition is_public_line :: "string \<Rightarrow> bool" where
  "is_public_line line = (re_search P_public line \<noteq> None)"

definition is_private_line :: "string \<Rightarrow> bool" where
  "is_private_line line = (re_search P_private_protected line \<noteq> None)"

text \<open>
  The loop of \<^verbatim>\<open>extract_public_methods\<close> over the lines: its variables are the state,
  one step is the body of the loop for one line.
\<close>

record scan =
  sc_methods :: "string list"
  sc_in_public_section :: bool
  sc_in_class :: bool
  sc_brace_depth :: int

definition scan_init :: scan where
  "scan_init = \<lparr>sc_methods = [], sc_in_public_section = False, sc_in_class = False, sc_brace_depth = 0\<rparr>"

definition shell_take_method :: "string list \<Rightarrow> string \<Rightarrow> string list" where
  "shell_take_method found line =
     (case re_search P_method line of
        None \<Rightarrow> found
      | Some method_match \<Rightarrow>
          let method_name = m_group method_match 1 in
          if method_name \<noteq> [] \<and> method_name \<notin> set [''~'', ''operator'']
          then (if method_name \<notin> set found then found @ [method_name] else found)
          else found)"

definition shell_scan_line :: "scan \<Rightarrow> string \<Rightarrow> scan" where
  "shell_scan_line st line =
     (if is_class_start line
      then st\<lparr>sc_in_class := True, sc_in_public_section := False, sc_brace_depth := brace_delta line\<rparr>
      else if \<not> sc_in_class st then st
      else
        let st = st\<lparr>sc_brace_depth := sc_brace_depth st + brace_delta line\<rparr> in
        if sc_brace_depth st \<le> 0 then st\<lparr>sc_in_class := False\<rparr>
        else if is_public_line line then st\<lparr>sc_in_public_section := True\<rparr>
        else if is_private_line line then st\<lparr>sc_in_public_section := False\<rparr>
        else if sc_in_public_section st then st\<lparr>sc_methods := shell_take_method (sc_methods st) line\<rparr>
        else st)"

definition strip_comments :: "string \<Rightarrow> string" where
  "strip_comments content = re_sub P_block_comment [] (re_sub P_line_comment [] content)"

definition scan_public_methods :: "string \<Rightarrow> string list" where
  "scan_public_methods content = sc_methods (foldl shell_scan_line scan_init (split_nl (strip_comments content)))"

definition extract_public_methods :: "fs \<Rightarrow> string \<Rightarrow> string list" where
  "extract_public_methods files header_path =
     (case files header_path of
        Missing \<Rightarrow> []
      | Unreadable \<Rightarrow> []
      | Content content \<Rightarrow> scan_public_methods content)"

section \<open>add_shell_nodes.py\<close>

definition gkm_step :: "string list \<times> string list \<Rightarrow> string \<Rightarrow> string list \<times> string list" where
  "gkm_step acc method =
     (case acc of (priority, other) \<Rightarrow>
      let method_lower = lower method in
      if any_in [''handle'', ''execute'', ''setup'', ''update'', ''draw'', ''set'', ''get''] method_lower
      then (priority @ [method], other)
      else (priority, other @ [method]))"

definition get_key_methods :: "string list \<Rightarrow> class_info \<Rightarrow> string list" where
  "get_key_methods all_methods class_info =
     (if all_methods = [] then take 8 (ci_methods class_info)
      else
        case foldl gkm_step ([], []) all_methods of (priority, other) \<Rightarrow>
        let result = take 6 priority;
            result = (if length result < 8 then result @ take (8 - length result) other else result)
        in take 8 result)"

definition method_line :: "string \<Rightarrow> string" where
  "method_line method = ''- `'' @ method @ ''()`''"

definition node_title :: "string \<Rightarrow> bool \<Rightarrow> string" where
  "node_title class_name has_cpp = (if has_cpp then ''# '' @ class_name @ ''.cpp/h'' else ''# '' @ class_name @ ''.h'')"

definition format_node_text_shell :: "string \<Rightarrow> class_info \<Rightarrow> string list \<Rightarrow> bool \<Rightarrow> string" where
  "format_node_text_shell class_name class_info key_methods has_cpp =
     (let title = node_title class_name has_cpp;
          lines = [title, []];
          description = ci_description class_info;
          lines = (if description \<noteq> [] then lines @ [''*'' @ description @ ''*'', []] else lines);
          lines = (if key_methods \<noteq> [] then lines @ [''**Key Methods:**''] @ map method_line key_methods else lines)
      in join_nl lines)"

text \<open>The patterns \<^verbatim>\<open>#\s*Shell\.\<close> and \<^verbatim>\<open>#\s*(\w+)\.\<close>.\<close>

definition P_shell_title :: re where
  "P_shell_title = seqs [ch CHR ''#'', Star sp, re_str ''Shell'', ch CHR ''.'']"

definition P_any_title :: re where
  "P_any_title = seqs [ch CHR ''#'', Star sp, Group 1 (Plus wd), ch CHR ''.'']"

definition num_or_0 :: "real option \<Rightarrow> real" where
  "num_or_0 v = (case v of None \<Rightarrow> 0 | Some r \<Rightarrow> r)"

fun find_shell_node_position :: "node list \<Rightarrow> (real \<times> real) option" where
  "find_shell_node_position [] = None"
| "find_shell_node_position (node # nodes) =
     (if is_text_node node \<and> re_search P_shell_title (get_text node) \<noteq> None
      then Some (num_or_0 (n_x node), num_or_0 (n_y node))
      else find_shell_node_position nodes)"

definition existing_class_of :: "node \<Rightarrow> string list" where
  "existing_class_of node =
     (if is_text_node node
      then (case re_search P_any_title (get_text node) of None \<Rightarrow> [] | Some m \<Rightarrow> [m_group m 1])
      else [])"

definition existing_classes :: "node list \<Rightarrow> string set" where
  "existing_classes nodes = set (concat (map existing_class_of nodes))"

definition missing_shells :: "node list \<Rightarrow> string list" where
  "missing_shells nodes = filter (\<lambda>name. name \<notin> existing_classes nodes) (map fst SHELL_CLASSES)"

text \<open>
  The body of the loop over \<^verbatim>\<open>enumerate(missing_shells)\<close>. \<^verbatim>\<open>generate_node_id\<close>
  draws a random identifier: \<open>ids k\<close> is the identifier the k-th call returns. The
  lookup \<^verbatim>\<open>SHELL_CLASSES[class_name]\<close> cannot fail, the names being keys of the table.
  Standard output is not modelled for this script.
\<close>

definition make_shell_node :: "fs \<Rightarrow> string \<Rightarrow> real \<Rightarrow> real \<Rightarrow> nat \<Rightarrow> string \<Rightarrow> class_info \<Rightarrow> node" where
  "make_shell_node files node_id base_x base_y i class_name class_info =
     (let header_path = path_join SRC_DIR (ci_file class_info);
          cpp_path = path_join SRC_DIR (replace (ci_file class_info) ''.h'' ''.cpp'');
          has_cpp = path_exists files cpp_path;
          all_methods = extract_public_methods files header_path;
          key_methods = get_key_methods all_methods class_info;
          node_text = format_node_text_shell class_name class_info key_methods has_cpp;
          is_abstract = ci_is_abstract class_info;
          width = (if is_abstract then ABSTRACT_WIDTH else REGULAR_WIDTH);
          height = (if is_abstract then ABSTRACT_HEIGHT else REGULAR_HEIGHT);
          x = base_x;
          y = base_y + real i * SHELL_NODE_SPACING_Y
      in \<lparr>n_id = Some node_id, n_type = Some ''text'', n_text = Some node_text, n_styleAttributes = True,
            n_x = Some x, n_y = Some y, n_width = Some width, n_height = Some height,
            n_color = None, n_other = []\<rparr>)"

definition shell_loop_step :: "fs \<Rightarrow> (nat \<Rightarrow> string) \<Rightarrow> real \<Rightarrow> real \<Rightarrow> node list \<Rightarrow> nat \<times> string \<Rightarrow> node list" where
  "shell_loop_step files ids base_x base_y new_nodes e =
     (case e of (i, class_name) \<Rightarrow>
        if class_name = ''Shell'' then new_nodes
        else case map_of SHELL_CLASSES class_name of
               None \<Rightarrow> new_nodes
             | Some class_info \<Rightarrow>
                 new_nodes @ [make_shell_node files (ids (length new_nodes)) base_x base_y i class_name class_info])"

definition new_shell_nodes :: "fs \<Rightarrow> (nat \<Rightarrow> string) \<Rightarrow> node list \<Rightarrow> node list" where
  "new_shell_nodes files ids nodes =
     (let shell_pos = find_shell_node_position nodes;
          (shell_x, shell_y) = (case shell_pos of None \<Rightarrow> (2140, - 4320) | Some pos \<Rightarrow> pos);
          base_x = shell_x;
          base_y = shell_y + 400
      in foldl (shell_loop_step files ids base_x base_y) [] (enumerate 0 (missing_shells nodes)))"

definition add_shell_nodes :: "fs \<Rightarrow> (nat \<Rightarrow> string) \<Rightarrow> canvas \<Rightarrow> error + canvas" where
  "add_shell_nodes files ids canvas_data =
     (let nodes = get_nodes canvas_data;
          new_nodes = new_shell_nodes files ids nodes
      in case c_nodes canvas_data of
           None \<Rightarrow> Inl KeyError
         | Some present \<Rightarrow> Inr (canvas_data\<lparr>c_nodes := Some (present @ new_nodes)\<rparr>))"

section \<open>update_all_nodes.py\<close>










































text \<open>\<^verbatim>\<open>format_node_text\<close> of update_all_nodes.py.\<close>

definition format_node_text :: "string \<Rightarrow> string list \<Rightarrow> bool \<Rightarrow> string \<Rightarrow> string" where
  "format_node_text class_name key_methods has_cpp description =
     (let title = node_title class_name has_cpp;
          lines = [title, []];
          description = (if description = [] then get_fallback_description class_name else description);
          lines = (if description \<noteq> [] then lines @ [''*'' @ description @ ''*''] else lines);
          lines = lines @ [[]];
          lines = (if key_methods \<noteq> [] then lines @ map method_line key_methods else lines)
      in join_nl lines)"

text \<open>
  The class name of a node: \<^verbatim>\<open>#\s*(\w+)\.(?:cpp/)?h\<close>, then \<^verbatim>\<open>\*(\w+)\*\<close>, then the
  first line with the known suffixes removed. The result is the empty string when no
  pattern yields a name (a group of \<^verbatim>\<open>\w+\<close> is never empty).
\<close>

definition P_title :: re where
  "P_title = seqs [ch CHR ''#'', Star sp, Group 1 (Plus wd), ch CHR ''.'', Opt (re_str ''cpp/''), ch CHR ''h'']"

definition P_starred :: re where
  "P_starred = seqs [ch CHR ''*'', Group 1 (Plus wd), ch CHR ''*'']"

definition first_line_of :: "string \<Rightarrow> string" where
  "first_line_of text = strip (case split_nl text of [] \<Rightarrow> [] | l # _ \<Rightarrow> l)"

definition bare_class_name :: "string \<Rightarrow> string" where
  "bare_class_name text =
     strip (replace (replace (replace (replace (replace (first_line_of text)
       '' (abstract)'' []) ''.h'' []) ''.cpp/h'' []) ''.cpp'' []) ''#'' [])"

definition class_name_of_text :: "string \<Rightarrow> string" where
  "class_name_of_text text =
     (case re_search P_title text of
        Some m \<Rightarrow> m_group m 1
      | None \<Rightarrow>
          (case re_search P_starred text of
             Some m \<Rightarrow> m_group m 1
           | None \<Rightarrow> bare_class_name text))"














section \<open>update_node_titles.py\<close>
































section \<open>update_existing_canvas.py\<close>











section \<open>Auxiliary notions for the proofs\<close>

text \<open>
  \<open>first_end r st st'\<close>: the first match of \<open>r\<close> from \<open>st\<close> ends in \<open>st'\<close>.
  \<open>consume st xs ys\<close>: the state after reading \<open>xs\<close>, with \<open>ys\<close> left.
\<close>

definition first_end :: "re \<Rightarrow> mstate \<Rightarrow> mstate \<Rightarrow> bool" where
  "first_end r st st' \<longleftrightarrow> (\<exists>tl. re_run r st = st' # tl)"

definition consume :: "mstate \<Rightarrow> string \<Rightarrow> string \<Rightarrow> mstate" where
  "consume st xs ys = st\<lparr>st_prev := (if xs = [] then st_prev st else Some (last xs)), st_rest := ys\<rparr>"

definition word :: "string \<Rightarrow> bool" where
  "word s \<longleftrightarrow> s \<noteq> [] \<and> list_all is_word_char s"







section \<open>Properties of the key-method selection\<close>

lemma gkim_step_cases:
  "gkim_step (p, m, oth) x = (p @ [x], m, oth) \<or> gkim_step (p, m, oth) x = (p, m @ [x], oth)
   \<or> gkim_step (p, m, oth) x = (p, m, oth @ [x])"
  unfolding gkim_step_def Let_def prod.case
  by (simp only: if_split [where P = "\<lambda>r. r = _ \<or> r = _ \<or> r = _"]) blast

lemma gkim_step_set:
  "gkim_step (p, m, oth) x = (p', m', o') \<Longrightarrow>
     set p' \<union> set m' \<union> set o' = insert x (set p \<union> set m \<union> set oth)"
  using gkim_step_cases [of p m oth x] by auto

lemma gkim_foldl_set:
  "foldl gkim_step (p, m, oth) xs = (p', m', o') \<Longrightarrow>
     set p' \<union> set m' \<union> set o' = set xs \<union> (set p \<union> set m \<union> set oth)"
proof (induction xs arbitrary: p m oth)
  case Nil
  then show ?case by auto
next
  case (Cons x xs)
  obtain p1 m1 o1 where s: "gkim_step (p, m, oth) x = (p1, m1, o1)"
    by (cases "gkim_step (p, m, oth) x") auto
  from Cons.prems s have "foldl gkim_step (p1, m1, o1) xs = (p', m', o')"
    by simp
  from Cons.IH [OF this] gkim_step_set [OF s] show ?case
    by auto
qed

text \<open>
  C8. For every list of method names, \<^verbatim>\<open>get_key_interaction_methods\<close> returns at
  most 8 names, every returned name is an element of the input list, and the result
  is non-empty whenever the input list is non-empty.
\<close>

theorem get_key_interaction_methods_bounded:
  "length (get_key_interaction_methods class_name all_methods) \<le> 8
   \<and> set (get_key_interaction_methods class_name all_methods) \<subseteq> set all_methods
   \<and> (all_methods \<noteq> [] \<longrightarrow> get_key_interaction_methods class_name all_methods \<noteq> [])"
proof (cases "all_methods = []")
  case True
  then show ?thesis by (simp add: get_key_interaction_methods_def)
next
  case False
  obtain p m oth where f: "foldl gkim_step ([], [], []) all_methods = (p, m, oth)"
    by (cases "foldl gkim_step ([], [], []) all_methods") auto
  from gkim_foldl_set [OF f] have u: "set p \<union> set m \<union> set oth = set all_methods"
    by simp
  define r1 where "r1 = take 6 p"
  define r2 where "r2 = (if length r1 < 8 then r1 @ take (8 - length r1) m else r1)"
  define r3 where "r3 = (if length r2 < 8 then r2 @ take (8 - length r2) oth else r2)"
  define r4 where "r4 = (if r3 = [] \<and> all_methods \<noteq> [] then take 8 all_methods else r3)"
  have res: "get_key_interaction_methods class_name all_methods = take 8 r4"
    unfolding get_key_interaction_methods_def f r4_def r3_def r2_def r1_def using False
    by (simp only: if_False prod.case Let_def)
  have s1: "set r1 \<subseteq> set all_methods"
    using u set_take_subset [of 6 p] unfolding r1_def by blast
  have s2: "set r2 \<subseteq> set all_methods"
    using u s1 set_take_subset [of "8 - length r1" m] unfolding r2_def by (simp; blast)
  have s3: "set r3 \<subseteq> set all_methods"
    using u s2 set_take_subset [of "8 - length r2" oth] unfolding r3_def by (simp; blast)
  have s4: "set r4 \<subseteq> set all_methods"
    using s3 set_take_subset [of 8 all_methods] unfolding r4_def by (simp; blast)
  have mem: "set (take 8 r4) \<subseteq> set all_methods"
    using s4 set_take_subset [of 8 r4] by blast
  have "r4 \<noteq> []"
    using False unfolding r4_def by simp
  then have ne: "take 8 r4 \<noteq> []"
    by (cases r4) simp_all
  from mem ne show ?thesis
    unfolding res by simp
qed

theorem get_key_interaction_methods_bounded_witness:
  "length (get_key_interaction_methods ''Engine'' [''connectAudio'', ''getState'', ''foo'']) \<le> 8
   \<and> set (get_key_interaction_methods ''Engine'' [''connectAudio'', ''getState'', ''foo''])
        \<subseteq> {''connectAudio'', ''getState'', ''foo''}
   \<and> get_key_interaction_methods ''Engine'' [''connectAudio'', ''getState'', ''foo''] \<noteq> []"
  using get_key_interaction_methods_bounded [of "''Engine''" "[''connectAudio'', ''getState'', ''foo'']"]
  by simp

section \<open>Properties of the fallback descriptions\<close>

lemma map_of_mono_set:
  "set xs \<subseteq> set ys \<Longrightarrow> distinct (map fst ys) \<Longrightarrow> map_of xs k = Some v \<Longrightarrow> map_of ys k = Some v"
  by (meson map_of_SomeD map_of_is_SomeI subsetD)

lemma fallbacks_titles_subset: "set fallbacks_titles \<subseteq> set fallbacks_all"
  by code_simp

lemma fallbacks_all_distinct: "distinct (map fst fallbacks_all)"
  by code_simp

text \<open>
  C3, as stated: the copy of \<^verbatim>\<open>get_fallback_description\<close> in update_all_nodes.py and the
  copy in update_node_titles.py return equal strings for every class name. This fails
  at the class name \<^verbatim>\<open>Oscilloscope\<close>: the table of update_all_nodes.py has an
  entry for it and the table of update_node_titles.py has none.
\<close>

theorem get_fallback_description_copies_differ:
  "get_fallback_description ''Oscilloscope'' \<noteq> get_fallback_description_titles ''Oscilloscope''"
  by code_simp

text \<open>
  C3, amended. Each copy of \<^verbatim>\<open>get_fallback_description\<close> is a function of the class
  name alone (a lookup in a table that is a literal of the function), so the same class
  name always yields the same string. The two copies return equal strings for every
  class name that is a key of the table of update_node_titles.py; for every other class
  name the copy of update_node_titles.py returns the empty string, whatever the copy of
  update_all_nodes.py returns.
\<close>

theorem get_fallback_description_copies_agree:
  "get_fallback_description_titles class_name =
     (if class_name \<in> set (map fst fallbacks_titles) then get_fallback_description class_name else [])"
proof (cases "map_of fallbacks_titles class_name")
  case None
  then have "class_name \<notin> set (map fst fallbacks_titles)"
    by (simp add: map_of_eq_None_iff)
  with None show ?thesis
    by (simp add: get_fallback_description_titles_def dict_get_str_def)
next
  case (Some v)
  then have m: "class_name \<in> set (map fst fallbacks_titles)"
    by (metis map_of_eq_None_iff option.distinct(1) set_map)
  from map_of_mono_set [OF fallbacks_titles_subset fallbacks_all_distinct Some]
  have "map_of fallbacks_all class_name = Some v" .
  with Some m show ?thesis
    by (simp add: get_fallback_description_titles_def get_fallback_description_def dict_get_str_def)
qed

theorem get_fallback_description_copies_agree_witness:
  "get_fallback_description_titles ''Engine'' = get_fallback_description ''Engine''"
proof -
  have m: "''Engine'' \<in> set (map fst fallbacks_titles)"
    by code_simp
  from get_fallback_description_copies_agree [of "''Engine''"] m show ?thesis
    by (simp only: if_True)
qed

section \<open>Properties of the static layout\<close>

lemma same_keys_refl: "same_keys a a"
  by (simp add: same_keys_def)

lemma same_keys_trans: "same_keys a b \<Longrightarrow> same_keys b c \<Longrightarrow> same_keys a c"
  by (simp add: same_keys_def)

lemma place_class_keys: "same_keys (place_class xb yb objs e) objs"
proof (cases e)
  case (Pair i cls)
  show ?thesis
  proof (cases "cls < length objs")
    case True
    then show ?thesis
      by (simp add: Pair place_class_def same_keys_def nth_list_update)
  next
    case False
    then show ?thesis
      by (simp add: Pair place_class_def same_keys_def)
  qed
qed

lemma place_class_other: "snd e \<noteq> k \<Longrightarrow> place_class xb yb objs e ! k = objs ! k"
  by (cases e) (simp add: place_class_def)

lemma place_class_hit:
  "idx < length objs \<Longrightarrow> uml_x (place_class xb yb objs (i, idx) ! idx) = xb
     \<and> uml_y (place_class xb yb objs (i, idx) ! idx) = yb + int i * NODE_SPACING_Y"
  by (simp add: place_class_def)

lemma foldl_place_keys: "same_keys (foldl (place_class xb yb) objs es) objs"
proof (induction es rule: rev_induct)
  case Nil
  show ?case by (simp add: same_keys_refl)
next
  case (snoc e es)
  show ?case
    using same_keys_trans [OF place_class_keys snoc.IH] by simp
qed

lemma foldl_place_other:
  "k \<notin> snd ` set es \<Longrightarrow> foldl (place_class xb yb) objs es ! k = objs ! k"
proof (induction es rule: rev_induct)
  case Nil
  show ?case by simp
next
  case (snoc e es)
  then have "snd e \<noteq> k" "k \<notin> snd ` set es" by auto
  with snoc.IH show ?case by (simp add: place_class_other)
qed

lemma foldl_place_hit:
  "distinct (map snd es) \<Longrightarrow> (i, idx) \<in> set es \<Longrightarrow> idx < length objs \<Longrightarrow>
     uml_x (foldl (place_class xb yb) objs es ! idx) = xb
     \<and> uml_y (foldl (place_class xb yb) objs es ! idx) = yb + int i * NODE_SPACING_Y"
proof (induction es rule: rev_induct)
  case Nil
  then show ?case by simp
next
  case (snoc e es)
  let ?r = "foldl (place_class xb yb) objs es"
  have len: "length ?r = length objs"
    using foldl_place_keys [of xb yb objs es] by (simp add: same_keys_def)
  show ?case
  proof (cases "e = (i, idx)")
    case True
    with snoc.prems(3) len show ?thesis
      by (simp add: place_class_hit)
  next
    case False
    with snoc.prems have in_es: "(i, idx) \<in> set es" and d: "distinct (map snd es)" by auto
    from snoc.prems(1) have "snd e \<notin> snd ` set es" by simp
    moreover from in_es have "idx \<in> snd ` set es" by force
    ultimately have "snd e \<noteq> idx" by blast
    with snoc.IH [OF d in_es snoc.prems(3)] show ?thesis
      by (simp add: place_class_other)
  qed
qed

lemma sort_key_cong_set:
  "(\<And>x. x \<in> set xs \<Longrightarrow> f x = g x) \<Longrightarrow> sort_key f xs = sort_key g xs"
proof (induction xs)
  case Nil
  show ?case by simp
next
  case (Cons a xs)
  have ins: "set ys \<subseteq> set xs \<Longrightarrow> insort_key f a ys = insort_key g a ys" for ys
    using Cons.prems by (induction ys) auto
  from Cons have "sort_key f xs = sort_key g xs" by simp
  with ins [of "sort_key g xs"] show ?case by simp
qed

lemma place_layer_keys: "same_keys (place_layer objs e) objs"
  by (cases e) (simp add: place_layer_def Let_def foldl_place_keys)

lemma snd_set_enumerate: "snd ` set (enumerate n xs) = set xs"
  by (metis map_snd_enumerate set_map)

lemma place_layer_other:
  "k \<notin> set (snd e) \<Longrightarrow> place_layer objs e ! k = objs ! k"
  by (cases e) (simp add: place_layer_def Let_def foldl_place_other snd_set_enumerate)

lemma place_layer_hit:
  assumes d: "distinct idxs" and b: "\<forall>k \<in> set idxs. k < length objs"
    and s: "s = sort_key (\<lambda>cls. layer_sort_key (objs ! cls)) idxs" and i: "i < length s"
  shows "uml_x (place_layer objs (layer_name, idxs) ! (s ! i)) = layer_get_x layer_name
     \<and> uml_y (place_layer objs (layer_name, idxs) ! (s ! i))
         = layer_get_y layer_name + LAYER_HEADER_HEIGHT + int i * NODE_SPACING_Y"
proof -
  have ds: "distinct (map snd (enumerate 0 s))"
    using d by (simp add: s)
  have mem: "(i, s ! i) \<in> set (enumerate 0 s)"
    using i by (simp add: in_set_enumerate_eq)
  have "s ! i \<in> set idxs"
    using i s by (metis nth_mem set_sort)
  with b have lt: "s ! i < length objs" by blast
  from foldl_place_hit [OF ds mem lt] show ?thesis
    by (simp add: place_layer_def Let_def s)
qed


lemma by_layer_append_map_of:
  "map_of (by_layer_append d k v) k' =
     (if k' = k then Some ((case map_of d k of None \<Rightarrow> [] | Some vs \<Rightarrow> vs) @ [v]) else map_of d k')"
  by (induction d k v rule: by_layer_append.induct) auto

lemma by_layer_append_keys: "fst ` set (by_layer_append d k v) = insert k (fst ` set d)"
  by (induction d k v rule: by_layer_append.induct) auto

lemma by_layer_append_distinct:
  "distinct (map fst d) \<Longrightarrow> distinct (map fst (by_layer_append d k v))"
proof (induction d k v rule: by_layer_append.induct)
  case (1 k v)
  show ?case by simp
next
  case (2 k' vs d k v)
  then show ?case
    using by_layer_append_keys [of d k v] by auto
qed

lemma group_fold_distinct:
  "distinct (map fst d) \<Longrightarrow> distinct (map fst (foldl (\<lambda>by_layer i. by_layer_append by_layer (lay i) i) d js))"
  by (induction js arbitrary: d) (simp_all add: by_layer_append_distinct)

lemma group_fold_map_of:
  "map_of (foldl (\<lambda>by_layer i. by_layer_append by_layer (lay i) i) d js) L =
     (case map_of d L of
        None \<Rightarrow> (if filter (\<lambda>i. lay i = L) js = [] then None else Some (filter (\<lambda>i. lay i = L) js))
      | Some vs \<Rightarrow> Some (vs @ filter (\<lambda>i. lay i = L) js))"
proof (induction js arbitrary: d)
  case Nil
  show ?case by (simp split: option.split)
next
  case (Cons j js)
  show ?case
    by (simp add: Cons.IH by_layer_append_map_of split: option.split)
qed

lemma group_by_layer_distinct: "distinct (map fst (group_by_layer objs))"
  unfolding group_by_layer_def by (rule group_fold_distinct) simp

lemma group_by_layer_map_of:
  "map_of (group_by_layer objs) L =
     (if filter (\<lambda>i. uml_layer (objs ! i) = L) [0..<length objs] = [] then None
      else Some (filter (\<lambda>i. uml_layer (objs ! i) = L) [0..<length objs]))"
  unfolding group_by_layer_def by (simp add: group_fold_map_of)

lemma group_by_layer_mem:
  "(L, idxs) \<in> set (group_by_layer objs) \<longleftrightarrow>
     idxs = filter (\<lambda>i. uml_layer (objs ! i) = L) [0..<length objs] \<and> idxs \<noteq> []"
  using map_of_eq_Some_iff [OF group_by_layer_distinct, of objs L idxs]
  by (auto simp: group_by_layer_map_of split: if_splits)

lemma layers_fold:
  assumes "distinct (map fst G)"
    and "\<And>L idxs. (L, idxs) \<in> set G \<Longrightarrow> idxs = filter (\<lambda>k. uml_layer (objs0 ! k) = L) [0..<length objs0]"
  shows "same_keys (foldl place_layer objs0 G) objs0 \<and>
     (\<forall>L idxs i. (L, idxs) \<in> set G \<longrightarrow> i < length idxs \<longrightarrow>
        uml_x (foldl place_layer objs0 G ! (sort_key (\<lambda>cls. layer_sort_key (objs0 ! cls)) idxs ! i)) = layer_get_x L
        \<and> uml_y (foldl place_layer objs0 G ! (sort_key (\<lambda>cls. layer_sort_key (objs0 ! cls)) idxs ! i))
            = layer_get_y L + LAYER_HEADER_HEIGHT + int i * NODE_SPACING_Y)"
  using assms
proof (induction G rule: rev_induct)
  case Nil
  show ?case by (simp add: same_keys_refl)
next
  case (snoc e G)
  let ?r = "foldl place_layer objs0 G"
  let ?key0 = "\<lambda>cls. layer_sort_key (objs0 ! cls)"
  obtain L' idxs' where e: "e = (L', idxs')" by (cases e)
  from snoc.prems(1) have dG: "distinct (map fst G)" and fresh: "L' \<notin> fst ` set G"
    by (simp_all add: e)
  have fG: "\<And>L idxs. (L, idxs) \<in> set G \<Longrightarrow> idxs = filter (\<lambda>k. uml_layer (objs0 ! k) = L) [0..<length objs0]"
    using snoc.prems(2) by simp
  have idxs': "idxs' = filter (\<lambda>k. uml_layer (objs0 ! k) = L') [0..<length objs0]"
    using snoc.prems(2) [of L' idxs'] by (simp add: e)
  from snoc.IH [OF dG fG] have keys: "same_keys ?r objs0"
    and ih: "\<And>L idxs i. (L, idxs) \<in> set G \<Longrightarrow> i < length idxs \<Longrightarrow>
        uml_x (?r ! (sort_key ?key0 idxs ! i)) = layer_get_x L
        \<and> uml_y (?r ! (sort_key ?key0 idxs ! i)) = layer_get_y L + LAYER_HEADER_HEIGHT + int i * NODE_SPACING_Y"
    by blast+
  have len: "length ?r = length objs0"
    using keys by (simp add: same_keys_def)
  have keys': "same_keys (foldl place_layer objs0 (G @ [e])) objs0"
    using same_keys_trans [OF place_layer_keys keys] by simp
  have hit: "uml_x (foldl place_layer objs0 (G @ [e]) ! (sort_key ?key0 idxs ! i)) = layer_get_x L
        \<and> uml_y (foldl place_layer objs0 (G @ [e]) ! (sort_key ?key0 idxs ! i))
            = layer_get_y L + LAYER_HEADER_HEIGHT + int i * NODE_SPACING_Y"
    if m: "(L, idxs) \<in> set (G @ [e])" and i: "i < length idxs" for L idxs i
  proof (cases "(L, idxs) \<in> set G")
    case True
    then have "L \<noteq> L'" using fresh by force
    have idxs: "idxs = filter (\<lambda>k. uml_layer (objs0 ! k) = L) [0..<length objs0]"
      using fG [OF True] .
    have "sort_key ?key0 idxs ! i \<in> set idxs"
      using i by (metis length_sort nth_mem set_sort)
    then have "uml_layer (objs0 ! (sort_key ?key0 idxs ! i)) = L"
      by (simp add: idxs)
    with \<open>L \<noteq> L'\<close> have "sort_key ?key0 idxs ! i \<notin> set idxs'"
      by (simp add: idxs')
    then have "place_layer ?r e ! (sort_key ?key0 idxs ! i) = ?r ! (sort_key ?key0 idxs ! i)"
      by (simp add: place_layer_other e)
    with ih [OF True i] show ?thesis by simp
  next
    case False
    with m have eq: "L = L'" "idxs = idxs'" by (simp_all add: e)
    have d: "distinct idxs'" by (simp add: idxs')
    have b: "\<forall>k \<in> set idxs'. k < length ?r" by (simp add: idxs' len)
    have sk: "sort_key ?key0 idxs' = sort_key (\<lambda>cls. layer_sort_key (?r ! cls)) idxs'"
    proof (rule sort_key_cong_set)
      fix k assume "k \<in> set idxs'"
      then have "k < length ?r" using b by blast
      with keys show "layer_sort_key (objs0 ! k) = layer_sort_key (?r ! k)"
        by (simp add: same_keys_def layer_sort_key_def)
    qed
    have i': "i < length (sort_key ?key0 idxs')" using i eq by simp
    from place_layer_hit [OF d b sk i', of L'] show ?thesis
      by (simp add: eq e)
  qed
  from keys' hit show ?case by blast
qed

text \<open>
  C7. For every layer, take the classes of that layer (objects whose \<^verbatim>\<open>layer\<close> is the
  layer's name), ordered with abstract classes first and then by name (Python's sort
  on the key \<^verbatim>\<open>(not c.is_abstract, c.name)\<close>, which is stable). After
  \<^verbatim>\<open>layout_classes\<close> the i-th class of this order (counting from 0) has x equal to
  the layer's configured x and y equal to the layer's configured y plus the layer
  header height 120 plus i times the node spacing 150. A layer that is not a key of
  \<^verbatim>\<open>UML_LAYERS\<close> has configured x and y 0, as the \<^verbatim>\<open>.get\<close> defaults give.
\<close>

theorem layout_classes_stack:
  assumes "layer_classes = sort_key (\<lambda>cls. layer_sort_key (objs ! cls))
                             (filter (\<lambda>cls. uml_layer (objs ! cls) = layer_name) [0..<length objs])"
    and "i < length layer_classes"
  shows "uml_x (layout_classes objs ! (layer_classes ! i)) = layer_get_x layer_name
     \<and> uml_y (layout_classes objs ! (layer_classes ! i)) = layer_get_y layer_name + 120 + int i * 150"
proof -
  let ?idxs = "filter (\<lambda>cls. uml_layer (objs ! cls) = layer_name) [0..<length objs]"
  from assms have i: "i < length ?idxs" by simp
  then have "?idxs \<noteq> []" by auto
  then have m: "(layer_name, ?idxs) \<in> set (group_by_layer objs)"
    by (simp add: group_by_layer_mem)
  have "\<And>L idxs. (L, idxs) \<in> set (group_by_layer objs) \<Longrightarrow>
          idxs = filter (\<lambda>k. uml_layer (objs ! k) = L) [0..<length objs]"
    by (simp add: group_by_layer_mem)
  from layers_fold [OF group_by_layer_distinct this] m i show ?thesis
    unfolding layout_classes_def assms(1) LAYER_HEADER_HEIGHT_def NODE_SPACING_Y_def by blast
qed


theorem layout_classes_stack_witness:
  "uml_x (layout_classes
      [\<lparr>uml_name = ''ofApp'', uml_node_id = ''class-0'', uml_layer = ''application'', uml_is_abstract = False,
        uml_x = 0, uml_y = 0, uml_parent_class = Some ''ofBaseApp'', uml_children = []\<rparr>,
       \<lparr>uml_name = ''ofBaseApp'', uml_node_id = ''class-1'', uml_layer = ''application'', uml_is_abstract = True,
        uml_x = 0, uml_y = 0, uml_parent_class = None, uml_children = [''ofApp'']\<rparr>] ! 0) = 0
   \<and> uml_y (layout_classes
      [\<lparr>uml_name = ''ofApp'', uml_node_id = ''class-0'', uml_layer = ''application'', uml_is_abstract = False,
        uml_x = 0, uml_y = 0, uml_parent_class = Some ''ofBaseApp'', uml_children = []\<rparr>,
       \<lparr>uml_name = ''ofBaseApp'', uml_node_id = ''class-1'', uml_layer = ''application'', uml_is_abstract = True,
        uml_x = 0, uml_y = 0, uml_parent_class = None, uml_children = [''ofApp'']\<rparr>] ! 0) = 270"
proof -
  let ?objs = "[\<lparr>uml_name = ''ofApp'', uml_node_id = ''class-0'', uml_layer = ''application'', uml_is_abstract = False,
        uml_x = 0, uml_y = 0, uml_parent_class = Some ''ofBaseApp'', uml_children = []\<rparr>,
       \<lparr>uml_name = ''ofBaseApp'', uml_node_id = ''class-1'', uml_layer = ''application'', uml_is_abstract = True,
        uml_x = 0, uml_y = 0, uml_parent_class = None, uml_children = [''ofApp'']\<rparr>]"
  have s: "[1, 0] = sort_key (\<lambda>cls. layer_sort_key (?objs ! cls))
                      (filter (\<lambda>cls. uml_layer (?objs ! cls) = ''application'') [0..<length ?objs])"
    by code_simp
  have i: "(1::nat) < length [1::nat, 0]"
    by simp
  have c: "layer_get_x ''application'' = 0" "layer_get_y ''application'' = 0"
    by code_simp+
  from layout_classes_stack [OF s i] show ?thesis
    by (simp add: c)
qed

section \<open>Properties of the regular-expression matcher\<close>

lemma consume_fields [simp]:
  "st_rest (consume st xs ys) = ys" "st_groups (consume st xs ys) = st_groups st"
  "st_prev (consume st xs ys) = (if xs = [] then st_prev st else Some (last xs))"
  by (simp_all add: consume_def)

lemma consume_nil: "st_rest st = ys \<Longrightarrow> consume st [] ys = st"
  by (simp add: consume_def)

lemma consume_consume: "consume (consume st xs zs) ys ws = consume st (xs @ ys) ws"
  by (simp add: consume_def)

lemma first_Atom:
  "st_rest st = c # cs \<Longrightarrow> cc_match k c \<Longrightarrow> first_end (Atom k) st (consume st [c] cs)"
  by (simp add: first_end_def consume_def)

lemma first_ch:
  "st_rest st = c # cs \<Longrightarrow> first_end (ch c) st (consume st [c] cs)"
  by (simp add: ch_def first_Atom)

lemma first_Eps: "first_end Eps st st"
  by (simp add: first_end_def)

lemma first_Seq:
  "first_end a st st1 \<Longrightarrow> first_end b st1 st2 \<Longrightarrow> first_end (Seq a b) st st2"
  by (auto simp: first_end_def)

lemma first_Opt_take: "first_end a st st' \<Longrightarrow> first_end (Opt a) st st'"
  by (auto simp: first_end_def)

lemma first_Opt_skip: "re_run a st = [] \<Longrightarrow> first_end (Opt a) st st"
  by (simp add: first_end_def)

lemma first_Group:
  "first_end a st st' \<Longrightarrow>
   first_end (Group n a) st
     (st'\<lparr>st_groups := (n, take (length (st_rest st) - length (st_rest st')) (st_rest st)) # st_groups st'\<rparr>)"
  by (auto simp: first_end_def)

lemma first_Star_atom:
  "st_rest st = xs @ ys \<Longrightarrow> \<forall>c \<in> set xs. cc_match k c \<Longrightarrow> ys = [] \<or> \<not> cc_match k (hd ys) \<Longrightarrow>
   first_end (Star (Atom k)) st (consume st xs ys)"
proof (induction xs arbitrary: st)
  case Nil
  then have "re_run (Atom k) st = []"
    by (cases ys) auto
  with Nil show ?case
    by (simp add: first_end_def consume_def)
next
  case (Cons x xs)
  let ?st1 = "consume st [x] (xs @ ys)"
  have a: "re_run (Atom k) st = [?st1]"
    using Cons.prems by (simp add: consume_def)
  have sh: "shorter ?st1 st"
    using Cons.prems by (simp add: shorter_def)
  have "first_end (Star (Atom k)) ?st1 (consume ?st1 xs ys)"
    using Cons.prems by (intro Cons.IH) simp_all
  then obtain tl where "re_run (Star (Atom k)) ?st1 = consume ?st1 xs ys # tl"
    by (auto simp: first_end_def)
  moreover have "consume ?st1 xs ys = consume st (x # xs) ys"
    by (simp add: consume_def)
  ultimately show ?case
    using a sh by (simp add: first_end_def)
qed

lemma first_Plus_atom:
  "st_rest st = xs @ ys \<Longrightarrow> xs \<noteq> [] \<Longrightarrow> \<forall>c \<in> set xs. cc_match k c \<Longrightarrow> ys = [] \<or> \<not> cc_match k (hd ys) \<Longrightarrow>
   first_end (Plus (Atom k)) st (consume st xs ys)"
proof -
  assume r: "st_rest st = xs @ ys" and ne: "xs \<noteq> []" and all: "\<forall>c \<in> set xs. cc_match k c"
    and stop: "ys = [] \<or> \<not> cc_match k (hd ys)"
  obtain x xs' where xs: "xs = x # xs'" using ne by (cases xs) auto
  let ?st1 = "consume st [x] (xs' @ ys)"
  have a: "re_run (Atom k) st = [?st1]"
    using r all by (simp add: xs consume_def)
  have sh: "shorter ?st1 st"
    using r by (simp add: shorter_def xs)
  have "first_end (Star (Atom k)) ?st1 (consume ?st1 xs' ys)"
    using all stop by (intro first_Star_atom) (simp_all add: xs)
  then obtain tl where "re_run (Star (Atom k)) ?st1 = consume ?st1 xs' ys # tl"
    by (auto simp: first_end_def)
  moreover have "consume ?st1 xs' ys = consume st xs ys"
    by (simp add: consume_def xs)
  ultimately show ?thesis
    using a sh by (simp add: first_end_def)
qed

lemma first_re_str:
  "st_rest st = s @ ys \<Longrightarrow> first_end (re_str s) st (consume st s ys)"
proof (induction s arbitrary: st)
  case Nil
  then show ?case by (simp add: first_Eps consume_nil)
next
  case (Cons c s)
  have 1: "first_end (Atom (CChar c)) st (consume st [c] (s @ ys))"
    using Cons.prems by (intro first_Atom) simp_all
  have 2: "first_end (re_str s) (consume st [c] (s @ ys)) (consume (consume st [c] (s @ ys)) s ys)"
    by (intro Cons.IH) simp
  from first_Seq [OF 1 2] show ?case
    by (simp add: consume_consume)
qed

lemma re_str_fail:
  "st_rest st = c # cs \<Longrightarrow> s \<noteq> [] \<Longrightarrow> hd s \<noteq> c \<Longrightarrow> re_run (re_str s) st = []"
  by (cases s) auto

lemma match_at_first:
  "first_end r \<lparr>st_prev = prev, st_rest = s, st_groups = []\<rparr> st' \<Longrightarrow>
   match_at r prev s pos = Some \<lparr>m_start = pos, m_end = pos + (length s - length (st_rest st')), m_groups = st_groups st'\<rparr>"
  by (auto simp: first_end_def match_at_def)

lemma re_search_first:
  "first_end r \<lparr>st_prev = None, st_rest = s, st_groups = []\<rparr> st' \<Longrightarrow>
   re_search r s = Some \<lparr>m_start = 0, m_end = length s - length (st_rest st'), m_groups = st_groups st'\<rparr>"
  using match_at_first [of r None s st' 0]
  by (cases s) (simp_all add: re_search_def)


lemma first_seqs_Nil: "first_end (seqs []) st st"
  by (simp add: seqs_def first_Eps)

lemma first_seqs_Cons:
  "first_end r st st1 \<Longrightarrow> first_end (seqs rs) st1 st2 \<Longrightarrow> first_end (seqs (r # rs)) st st2"
  using first_Seq by (simp add: seqs_def)

lemma word_char_facts:
  "is_word_char c \<Longrightarrow> \<not> is_space_char c" "\<not> is_word_char CHR ''.''" "is_space_char CHR '' ''"
  by (auto simp: is_word_char_def is_space_char_def Let_def)

lemma first_title:
  assumes w: "word class_name"
    and r: "st_rest st = ''# '' @ class_name @ ext @ sfx" and e: "ext = ''.cpp/h'' \<or> ext = ''.h''"
  shows "\<exists>st'. first_end P_title st st' \<and> st_groups st' = (1, class_name) # st_groups st"
proof -
  from w have ne: "class_name \<noteq> []" and all: "\<forall>c \<in> set class_name. is_word_char c"
    by (simp_all add: word_def list_all_iff)
  obtain rest1 where rest1: "rest1 = '' '' @ class_name @ ext @ sfx" by simp
  let ?s1 = "consume st ''#'' ('' '' @ class_name @ ext @ sfx)"
  let ?s2 = "consume ?s1 '' '' (class_name @ ext @ sfx)"
  let ?s3 = "consume ?s2 class_name (ext @ sfx)"
  let ?g3 = "?s3\<lparr>st_groups := (1, class_name) # st_groups st\<rparr>"
  have 1: "first_end (ch CHR ''#'') st ?s1"
    using r by (intro first_ch) simp
  have "hd (class_name @ ext @ sfx) = hd class_name" using ne by simp
  moreover have "is_word_char (hd class_name)" using ne all by simp
  ultimately have stop2: "\<not> cc_match CSpace (hd (class_name @ ext @ sfx))"
    by (simp add: word_char_facts)
  have 2: "first_end (Star sp) ?s1 ?s2"
    unfolding sp_def using stop2 by (intro first_Star_atom) (simp_all add: word_char_facts)
  have dot: "hd (ext @ sfx) = CHR ''.''" using e by auto
  have 3: "first_end (Plus wd) ?s2 ?s3"
    unfolding wd_def using ne all dot by (intro first_Plus_atom) (simp_all add: word_char_facts)
  have "take (length (st_rest ?s2) - length (st_rest ?s3)) (st_rest ?s2) = class_name"
    by simp
  with first_Group [OF 3, of 1] have g3: "first_end (Group 1 (Plus wd)) ?s2 ?g3"
    by simp
  show ?thesis
  proof (cases "ext = ''.cpp/h''")
    case True
    let ?s4 = "consume ?g3 ''.'' (''cpp/h'' @ sfx)"
    let ?s5 = "consume ?s4 ''cpp/'' (''h'' @ sfx)"
    let ?s6 = "consume ?s5 ''h'' sfx"
    have 4: "first_end (ch CHR ''.'') ?g3 ?s4"
      using True by (intro first_ch) simp
    have 5: "first_end (Opt (re_str ''cpp/'')) ?s4 ?s5"
      by (intro first_Opt_take first_re_str) simp
    have 6: "first_end (ch CHR ''h'') ?s5 ?s6"
      by (intro first_ch) simp
    have "first_end P_title st ?s6"
      unfolding P_title_def
      by (intro first_seqs_Cons [OF 1] first_seqs_Cons [OF 2] first_seqs_Cons [OF g3] first_seqs_Cons [OF 4]
          first_seqs_Cons [OF 5] first_seqs_Cons [OF 6] first_seqs_Nil)
    moreover have "st_groups ?s6 = (1, class_name) # st_groups st" by simp
    ultimately show ?thesis by blast
  next
    case False
    with e have ext: "ext = ''.h''" by simp
    let ?s4 = "consume ?g3 ''.'' (''h'' @ sfx)"
    let ?s6 = "consume ?s4 ''h'' sfx"
    have 4: "first_end (ch CHR ''.'') ?g3 ?s4"
      using ext by (intro first_ch) simp
    have "re_run (re_str ''cpp/'') ?s4 = []"
      by (rule re_str_fail [where c = "CHR ''h''" and cs = sfx]) simp_all
    then have 5: "first_end (Opt (re_str ''cpp/'')) ?s4 ?s4"
      by (rule first_Opt_skip)
    have 6: "first_end (ch CHR ''h'') ?s4 ?s6"
      by (intro first_ch) simp
    have "first_end P_title st ?s6"
      unfolding P_title_def
      by (intro first_seqs_Cons [OF 1] first_seqs_Cons [OF 2] first_seqs_Cons [OF g3] first_seqs_Cons [OF 4]
          first_seqs_Cons [OF 5] first_seqs_Cons [OF 6] first_seqs_Nil)
    moreover have "st_groups ?s6 = (1, class_name) # st_groups st" by simp
    ultimately show ?thesis by blast
  qed
qed

lemma search_title:
  assumes "word class_name" and "ext = ''.cpp/h'' \<or> ext = ''.h''"
  shows "\<exists>m. re_search P_title (''# '' @ class_name @ ext @ sfx) = Some m \<and> m_group m 1 = class_name"
proof -
  let ?st = "\<lparr>st_prev = None, st_rest = ''# '' @ class_name @ ext @ sfx, st_groups = []\<rparr>"
  from first_title [OF assms(1) _ assms(2), of ?st sfx]
  obtain st' where f: "first_end P_title ?st st'" and g: "st_groups st' = [(1, class_name)]"
    by auto
  from re_search_first [OF f] g show ?thesis
    by (simp add: m_group_def)
qed

lemma first_any_title:
  assumes w: "word class_name"
    and r: "st_rest st = ''# '' @ class_name @ ''.'' @ sfx"
  shows "\<exists>st'. first_end P_any_title st st' \<and> st_groups st' = (1, class_name) # st_groups st"
proof -
  from w have ne: "class_name \<noteq> []" and all: "\<forall>c \<in> set class_name. is_word_char c"
    by (simp_all add: word_def list_all_iff)
  let ?s1 = "consume st ''#'' ('' '' @ class_name @ ''.'' @ sfx)"
  let ?s2 = "consume ?s1 '' '' (class_name @ ''.'' @ sfx)"
  let ?s3 = "consume ?s2 class_name (''.'' @ sfx)"
  let ?g3 = "?s3\<lparr>st_groups := (1, class_name) # st_groups st\<rparr>"
  let ?s4 = "consume ?g3 ''.'' sfx"
  have 1: "first_end (ch CHR ''#'') st ?s1"
    using r by (intro first_ch) simp
  have "hd (class_name @ ''.'' @ sfx) = hd class_name" using ne by simp
  moreover have "is_word_char (hd class_name)" using ne all by simp
  ultimately have stop2: "\<not> cc_match CSpace (hd (class_name @ ''.'' @ sfx))"
    by (simp add: word_char_facts)
  have 2: "first_end (Star sp) ?s1 ?s2"
    unfolding sp_def using stop2 by (intro first_Star_atom) (simp_all add: word_char_facts)
  have 3: "first_end (Plus wd) ?s2 ?s3"
    unfolding wd_def using ne all by (intro first_Plus_atom) (simp_all add: word_char_facts)
  have "take (length (st_rest ?s2) - length (st_rest ?s3)) (st_rest ?s2) = class_name"
    by simp
  with first_Group [OF 3, of 1] have g3: "first_end (Group 1 (Plus wd)) ?s2 ?g3"
    by simp
  have 4: "first_end (ch CHR ''.'') ?g3 ?s4"
    by (intro first_ch) simp
  have "first_end P_any_title st ?s4"
    unfolding P_any_title_def
    by (intro first_seqs_Cons [OF 1] first_seqs_Cons [OF 2] first_seqs_Cons [OF g3] first_seqs_Cons [OF 4]
        first_seqs_Nil)
  moreover have "st_groups ?s4 = (1, class_name) # st_groups st" by simp
  ultimately show ?thesis by blast
qed

lemma search_any_title:
  assumes "word class_name"
  shows "\<exists>m. re_search P_any_title (''# '' @ class_name @ ''.'' @ sfx) = Some m \<and> m_group m 1 = class_name"
proof -
  let ?st = "\<lparr>st_prev = None, st_rest = ''# '' @ class_name @ ''.'' @ sfx, st_groups = []\<rparr>"
  from first_any_title [OF assms, of ?st sfx]
  obtain st' where f: "first_end P_any_title ?st st'" and g: "st_groups st' = [(1, class_name)]"
    by auto
  from re_search_first [OF f] g show ?thesis
    by (simp add: m_group_def)
qed

lemma join_nl_two: "join_nl (a # b # ls) = a @ [CHR 0x0A] @ join_nl (b # ls)"
  by simp

lemma format_node_text_shape:
  "\<exists>sfx. format_node_text class_name key_methods has_cpp description
     = ''# '' @ class_name @ (if has_cpp then ''.cpp/h'' else ''.h'') @ [CHR 0x0A] @ sfx"
  unfolding format_node_text_def Let_def node_title_def
  by (simp only: append_Cons append_Nil join_nl_two append_assoc if_distrib [of "\<lambda>l. join_nl l"] split: if_split) auto

lemma strip_keep:
  assumes "a \<noteq> []" and "\<not> is_space_char (hd a)" and "\<not> is_space_char (last a)"
  shows "strip (a @ b) = a @ rev (dropWhile is_space_char (rev b))"
proof -
  obtain x xs where a: "a = x # xs" using assms(1) by (cases a) auto
  have 1: "dropWhile is_space_char (a @ b) = a @ b"
    using assms(2) by (simp add: a)
  have 2: "dropWhile is_space_char (rev a) = rev a"
    using assms(1,3) by (cases "rev a") (auto simp: last_rev hd_rev dest: arg_cong [where f = hd])
  have "dropWhile is_space_char (rev b @ rev a) = dropWhile is_space_char (rev b) @ rev a"
  proof (cases "\<forall>c \<in> set (rev b). is_space_char c")
    case True
    then have "dropWhile is_space_char (rev b @ rev a) = dropWhile is_space_char (rev a)"
      by (intro dropWhile_append2) simp
    moreover from True have "dropWhile is_space_char (rev b) = []"
      by (simp add: dropWhile_eq_Nil_conv)
    ultimately show ?thesis by (simp add: 2)
  next
    case False
    then obtain c where "c \<in> set (rev b)" "\<not> is_space_char c" by blast
    then show ?thesis by (simp add: dropWhile_append1)
  qed
  then show ?thesis
    by (simp add: strip_def 1)
qed

section \<open>Title round trip\<close>

text \<open>
  C10. For every class name consisting of word characters (at least one, as for every
  name the scripts handle), applying the class-name pattern
  \<^verbatim>\<open>#\s*(\w+)\.(?:cpp/)?h\<close> with \<^verbatim>\<open>re.search\<close> to the text that
  \<^verbatim>\<open>format_node_text(class_name, methods, has_cpp, description)\<close> of update_all_nodes.py
  produces yields a match whose group 1 is exactly \<open>class_name\<close>, for \<open>has_cpp\<close> true
  (title \<^verbatim>\<open># ClassName.cpp/h\<close>) and false (title \<^verbatim>\<open># ClassName.h\<close>). The same holds
  for the class-name extraction of the update loop, which strips the text first.
\<close>

theorem title_round_trip:
  assumes "word class_name"
  shows "(\<exists>m. re_search P_title (format_node_text class_name key_methods has_cpp description) = Some m
            \<and> m_group m 1 = class_name)
     \<and> class_name_of_text (strip (format_node_text class_name key_methods has_cpp description)) = class_name"
proof -
  let ?ext = "if has_cpp then ''.cpp/h'' else ''.h''"
  let ?a = "''# '' @ class_name @ ?ext"
  obtain sfx where t: "format_node_text class_name key_methods has_cpp description = ?a @ [CHR 0x0A] @ sfx"
    using format_node_text_shape [of class_name key_methods has_cpp description] by auto
  have e: "?ext = ''.cpp/h'' \<or> ?ext = ''.h''" by simp
  have direct: "\<exists>m. re_search P_title (format_node_text class_name key_methods has_cpp description) = Some m
            \<and> m_group m 1 = class_name"
    using search_title [OF assms e, of "[CHR 0x0A] @ sfx"] by (simp add: t)
  have sp: "\<not> is_space_char CHR ''#''" "\<not> is_space_char CHR ''h''"
    by (simp_all add: is_space_char_def)
  have "last ?a = CHR ''h''" by simp
  then have "strip (?a @ ([CHR 0x0A] @ sfx)) = ?a @ rev (dropWhile is_space_char (rev ([CHR 0x0A] @ sfx)))"
    using sp by (intro strip_keep) simp_all
  then have s: "strip (format_node_text class_name key_methods has_cpp description)
      = ''# '' @ class_name @ ?ext @ rev (dropWhile is_space_char (rev ([CHR 0x0A] @ sfx)))"
    by (simp add: t)
  obtain m where "re_search P_title (strip (format_node_text class_name key_methods has_cpp description)) = Some m"
    and "m_group m 1 = class_name"
    using search_title [OF assms e, of "rev (dropWhile is_space_char (rev ([CHR 0x0A] @ sfx)))"]
    unfolding s by blast
  then have "class_name_of_text (strip (format_node_text class_name key_methods has_cpp description)) = class_name"
    by (simp add: class_name_of_text_def)
  with direct show ?thesis by blast
qed

theorem title_round_trip_witness:
  "class_name_of_text (strip (format_node_text ''Engine'' [''connectAudio''] True [])) = ''Engine''"
proof -
  have w: "word ''Engine''"
    by (simp add: word_def is_word_char_def)
  from title_round_trip [OF w] show ?thesis
    by blast
qed

section \<open>Properties of the update loops\<close>





















section \<open>Added nodes follow the loaded nodes\<close>



section \<open>Nodes are never removed\<close>




section \<open>Nodes without a class name are skipped\<close>



section \<open>Missing and unreadable headers\<close>



section \<open>A second run of add_shell_nodes adds nothing\<close>

lemma shell_names_ok:
  "list_all (\<lambda>cn. word cn \<and> map_of SHELL_CLASSES cn \<noteq> None) (map fst SHELL_CLASSES)"
  by code_simp

lemma shell_name_word: "cn \<in> set (map fst SHELL_CLASSES) \<Longrightarrow> word cn"
  using shell_names_ok by (auto simp only: list_all_iff)

lemma shell_name_info: "cn \<in> set (map fst SHELL_CLASSES) \<Longrightarrow> \<exists>info. map_of SHELL_CLASSES cn = Some info"
  using shell_names_ok by (auto simp only: list_all_iff)

lemma format_node_text_shell_shape:
  "\<exists>sfx. format_node_text_shell class_name class_info key_methods has_cpp = ''# '' @ class_name @ ''.'' @ sfx"
  unfolding format_node_text_shell_def Let_def node_title_def
  by (simp only: append_Cons append_Nil join_nl_two append_assoc if_distrib [of "\<lambda>l. join_nl l"] split: if_split) auto

lemma existing_class_of_made:
  assumes "word class_name"
  shows "existing_class_of (make_shell_node files node_id base_x base_y i class_name class_info) = [class_name]"
proof -
  let ?n = "make_shell_node files node_id base_x base_y i class_name class_info"
  obtain km b where t: "n_text ?n = Some (format_node_text_shell class_name class_info km b)"
    and ty: "n_type ?n = Some ''text''"
    unfolding make_shell_node_def Let_def by simp
  obtain sfx where s: "format_node_text_shell class_name class_info km b = ''# '' @ class_name @ ''.'' @ sfx"
    using format_node_text_shell_shape by blast
  obtain m where "re_search P_any_title (''# '' @ class_name @ ''.'' @ sfx) = Some m" and "m_group m 1 = class_name"
    using search_any_title [OF assms] by blast
  then show ?thesis
    unfolding existing_class_of_def is_text_node_def get_text_def t ty s by simp
qed

lemma shell_loop_classes:
  assumes "set (map snd es) \<subseteq> set (map fst SHELL_CLASSES)"
  shows "map existing_class_of (foldl (shell_loop_step files ids base_x base_y) acc es)
     = map existing_class_of acc @ map (\<lambda>cn. [cn]) (filter (\<lambda>cn. cn \<noteq> ''Shell'') (map snd es))"
  using assms
proof (induction es arbitrary: acc)
  case Nil
  show ?case by simp
next
  case (Cons e es)
  obtain i cn where e: "e = (i, cn)" by (cases e)
  from Cons.prems have cn: "cn \<in> set (map fst SHELL_CLASSES)" and rest: "set (map snd es) \<subseteq> set (map fst SHELL_CLASSES)"
    by (simp_all add: e)
  show ?case
  proof (cases "cn = ''Shell''")
    case True
    then have "shell_loop_step files ids base_x base_y acc e = acc"
      by (simp add: shell_loop_step_def e)
    with Cons.IH [OF rest, of acc] True show ?thesis
      by (simp add: e)
  next
    case False
    obtain info where info: "map_of SHELL_CLASSES cn = Some info"
      using shell_name_info [OF cn] by blast
    let ?n = "make_shell_node files (ids (length acc)) base_x base_y i cn info"
    have st: "shell_loop_step files ids base_x base_y acc e = acc @ [?n]"
      using False by (simp add: shell_loop_step_def e info)
    have "existing_class_of ?n = [cn]"
      using shell_name_word [OF cn] by (rule existing_class_of_made)
    with Cons.IH [OF rest, of "acc @ [?n]"] False st show ?thesis
      by (simp add: e)
  qed
qed

lemma missing_shells_keys: "set (missing_shells nodes) \<subseteq> set (map fst SHELL_CLASSES)"
  by (auto simp: missing_shells_def)

lemma new_shell_nodes_fold:
  "\<exists>base_x base_y. new_shell_nodes files ids nodes
     = foldl (shell_loop_step files ids base_x base_y) [] (enumerate 0 (missing_shells nodes))"
proof -
  obtain sx sy where p: "(case find_shell_node_position nodes of None \<Rightarrow> (2140, - 4320) | Some pos \<Rightarrow> pos) = (sx, sy)"
    by (cases "case find_shell_node_position nodes of None \<Rightarrow> (2140 :: real, - 4320 :: real) | Some pos \<Rightarrow> pos") blast
  show ?thesis
    unfolding new_shell_nodes_def Let_def p prod.case by (intro exI) (rule refl)
qed

lemma new_shell_nodes_classes:
  "map existing_class_of (new_shell_nodes files ids nodes)
     = map (\<lambda>cn. [cn]) (filter (\<lambda>cn. cn \<noteq> ''Shell'') (missing_shells nodes))"
proof -
  obtain bx byy where f: "new_shell_nodes files ids nodes
     = foldl (shell_loop_step files ids bx byy) [] (enumerate 0 (missing_shells nodes))"
    using new_shell_nodes_fold by blast
  have "set (map snd (enumerate 0 (missing_shells nodes))) \<subseteq> set (map fst SHELL_CLASSES)"
    using missing_shells_keys by (simp only: map_snd_enumerate)
  from shell_loop_classes [OF this, of files ids bx byy "[]"] show ?thesis
    unfolding f by (simp only: map_snd_enumerate list.map append_Nil)
qed

lemma existing_classes_append:
  "existing_classes (nodes @ new_shell_nodes files ids nodes)
     = existing_classes nodes \<union> set (filter (\<lambda>cn. cn \<noteq> ''Shell'') (missing_shells nodes))"
proof -
  have "set (concat (map (\<lambda>cn. [cn]) xs)) = set xs" for xs :: "string list"
    by (induction xs) simp_all
  then show ?thesis
    unfolding existing_classes_def map_append concat_append set_append new_shell_nodes_classes by simp
qed

lemma missing_shells_second:
  "set (missing_shells (nodes @ new_shell_nodes files ids nodes)) \<subseteq> {''Shell''}"
proof
  fix cn assume a: "cn \<in> set (missing_shells (nodes @ new_shell_nodes files ids nodes))"
  then have k: "cn \<in> set (map fst SHELL_CLASSES)"
    and n: "cn \<notin> existing_classes (nodes @ new_shell_nodes files ids nodes)"
    unfolding missing_shells_def by simp_all
  from n have n1: "cn \<notin> existing_classes nodes" and n2: "cn \<notin> set (filter (\<lambda>cn. cn \<noteq> ''Shell'') (missing_shells nodes))"
    unfolding existing_classes_append by simp_all
  from k n1 have "cn \<in> set (missing_shells nodes)"
    unfolding missing_shells_def by simp
  with n2 show "cn \<in> {''Shell''}" by simp
qed

lemma shell_loop_only_shell:
  "\<forall>e \<in> set es. snd e = ''Shell'' \<Longrightarrow> foldl (shell_loop_step files ids base_x base_y) acc es = acc"
  by (induction es arbitrary: acc) (auto simp: shell_loop_step_def)

lemma new_shell_nodes_second:
  "new_shell_nodes files2 ids2 (nodes @ new_shell_nodes files ids nodes) = []"
proof -
  let ?nodes2 = "nodes @ new_shell_nodes files ids nodes"
  obtain bx byy where f: "new_shell_nodes files2 ids2 ?nodes2
     = foldl (shell_loop_step files2 ids2 bx byy) [] (enumerate 0 (missing_shells ?nodes2))"
    using new_shell_nodes_fold by blast
  have "\<forall>e \<in> set (enumerate 0 (missing_shells ?nodes2)). snd e = ''Shell''"
  proof
    fix e assume "e \<in> set (enumerate 0 (missing_shells ?nodes2))"
    then have "snd e \<in> snd ` set (enumerate 0 (missing_shells ?nodes2))"
      by (rule imageI)
    then have "snd e \<in> set (missing_shells ?nodes2)"
      by (simp only: snd_set_enumerate)
    with missing_shells_second [of nodes files ids] show "snd e = ''Shell''"
      by blast
  qed
  then show ?thesis
    unfolding f by (rule shell_loop_only_shell)
qed


text \<open>
  C9, as stated: running \<^verbatim>\<open>add_shell_nodes\<close> a second time over its own output finds
  every shell class already present. This fails for the class \<^verbatim>\<open>Shell\<close>: the loop
  skips it (\<^verbatim>\<open>continue  # Shell already exists\<close>) and never creates its node, so after
  a first run on a canvas without a Shell node the second run finds \<^verbatim>\<open>Shell\<close> missing.
\<close>

theorem second_run_misses_shell:
  "(case add_shell_nodes (\<lambda>p. Missing) (\<lambda>k. ''0123456789abcdef'')
          \<lparr>c_nodes = Some [], c_edges = Some [], c_metadata = None, c_other = []\<rparr> of
      Inl e \<Rightarrow> []
    | Inr written \<Rightarrow> missing_shells (get_nodes written)) = [''Shell'']"
proof -
  let ?new = "new_shell_nodes (\<lambda>p. Missing) (\<lambda>k. ''0123456789abcdef'') []"
  have m0: "missing_shells [] = map fst SHELL_CLASSES"
    by (simp add: missing_shells_def existing_classes_def)
  have "existing_classes ([] @ ?new) = set (filter (\<lambda>cn. cn \<noteq> ''Shell'') (map fst SHELL_CLASSES))"
    unfolding existing_classes_append m0 by (simp add: existing_classes_def)
  then have "missing_shells ([] @ ?new)
      = filter (\<lambda>name. name \<notin> set (filter (\<lambda>cn. cn \<noteq> ''Shell'') (map fst SHELL_CLASSES))) (map fst SHELL_CLASSES)"
    unfolding missing_shells_def by (rule arg_cong)
  also have "\<dots> = [''Shell'']"
    by code_simp
  finally have "missing_shells ([] @ ?new) = [''Shell'']" .
  then show ?thesis
    unfolding add_shell_nodes_def Let_def get_nodes_def
    by (simp only: canvas.simps option.case sum.case)
qed

text \<open>
  C9, amended. Every node \<^verbatim>\<open>add_shell_nodes\<close> creates has a title line that the
  detection pattern \<^verbatim>\<open>#\s*(\w+)\.\<close> matches with the name of its shell class, a
  class other than \<^verbatim>\<open>Shell\<close>. So a second run over the output of a first run,
  whatever the header files and the identifiers drawn then, finds every shell class
  other than \<^verbatim>\<open>Shell\<close> already present, adds zero nodes and writes the document it
  loaded.
\<close>

theorem add_shell_nodes_second_run:
  assumes "add_shell_nodes files ids canvas_data = Inr written"
  shows "(\<forall>node \<in> set (new_shell_nodes files ids (get_nodes canvas_data)).
            \<exists>class_name \<in> set (map fst SHELL_CLASSES). class_name \<noteq> ''Shell'' \<and> existing_class_of node = [class_name])
     \<and> (\<forall>class_name \<in> set (map fst SHELL_CLASSES).
            class_name \<noteq> ''Shell'' \<longrightarrow> class_name \<in> existing_classes (get_nodes written))
     \<and> new_shell_nodes files2 ids2 (get_nodes written) = []
     \<and> add_shell_nodes files2 ids2 written = Inr written"
proof -
  obtain nodes where n: "c_nodes canvas_data = Some nodes"
    using assms by (cases "c_nodes canvas_data") (simp_all add: add_shell_nodes_def Let_def)
  let ?new = "new_shell_nodes files ids nodes"
  have g: "get_nodes canvas_data = nodes"
    by (simp add: get_nodes_def n)
  have w: "written = canvas_data\<lparr>c_nodes := Some (nodes @ ?new)\<rparr>"
    using assms by (simp add: add_shell_nodes_def Let_def n g)
  have gw: "get_nodes written = nodes @ ?new" and cw: "c_nodes written = Some (nodes @ ?new)"
    by (simp_all add: get_nodes_def w)
  have a: "\<exists>class_name \<in> set (map fst SHELL_CLASSES). class_name \<noteq> ''Shell'' \<and> existing_class_of node = [class_name]"
    if "node \<in> set ?new" for node
  proof -
    from that have "existing_class_of node \<in> set (map existing_class_of ?new)"
      by simp
    then obtain cn where "cn \<in> set (filter (\<lambda>cn. cn \<noteq> ''Shell'') (missing_shells nodes))"
      and "existing_class_of node = [cn]"
      unfolding new_shell_nodes_classes by auto
    with missing_shells_keys [of nodes] show ?thesis by auto
  qed
  have b: "class_name \<in> existing_classes (get_nodes written)"
    if "class_name \<in> set (map fst SHELL_CLASSES)" and "class_name \<noteq> ''Shell''" for class_name
  proof (cases "class_name \<in> existing_classes nodes")
    case True
    then show ?thesis unfolding gw existing_classes_append by simp
  next
    case False
    with that(1) have "class_name \<in> set (missing_shells nodes)"
      unfolding missing_shells_def by simp
    with that(2) show ?thesis unfolding gw existing_classes_append by simp
  qed
  have c: "new_shell_nodes files2 ids2 (get_nodes written) = []"
    unfolding gw by (rule new_shell_nodes_second)
  have d: "add_shell_nodes files2 ids2 written = Inr written"
    unfolding add_shell_nodes_def Let_def c cw by (simp add: w)
  from a b c d show ?thesis
    unfolding g by blast
qed

theorem add_shell_nodes_second_run_witness:
  "new_shell_nodes (\<lambda>p. Unreadable) (\<lambda>k. ''fedcba9876543210'')
      (get_nodes (canvas.make (Some (([] :: node list) @ new_shell_nodes (\<lambda>p. Missing) (\<lambda>k. ''0123456789abcdef'') [])) None None [])) = []
   \<and> add_shell_nodes (\<lambda>p. Unreadable) (\<lambda>k. ''fedcba9876543210'')
      (canvas.make (Some (([] :: node list) @ new_shell_nodes (\<lambda>p. Missing) (\<lambda>k. ''0123456789abcdef'') [])) None None [])
     = Inr (canvas.make (Some (([] :: node list) @ new_shell_nodes (\<lambda>p. Missing) (\<lambda>k. ''0123456789abcdef'') [])) None None [])"
proof -
  let ?c = "canvas.make (Some []) None None []"
  let ?w = "canvas.make (Some (([] :: node list) @ new_shell_nodes (\<lambda>p. Missing) (\<lambda>k. ''0123456789abcdef'') [])) None None []"
  have run: "add_shell_nodes (\<lambda>p. Missing) (\<lambda>k. ''0123456789abcdef'') ?c = Inr ?w"
    by (simp add: add_shell_nodes_def Let_def get_nodes_def canvas.defs)
  note t = add_shell_nodes_second_run [OF run, where ?files2.0 = "\<lambda>p. Unreadable" and ?ids2.0 = "\<lambda>k. ''fedcba9876543210''"]
  show ?thesis
    by (intro conjI) (rule t [THEN conjunct2, THEN conjunct2, THEN conjunct1], rule t [THEN conjunct2, THEN conjunct2, THEN conjunct2])
qed

section \<open>The brace-depth scanner\<close>
















end
